theory Spec2Isabelle
  imports Main "HOL-Library.Word" "HOL-Library.Sublist"
begin

section \<open>Shared data model\<close>

text \<open>
  A \<open>File*\<close> is compared by pointer identity in buffer.cpp, so a file is modelled by its
  identity (a number); a cleared descriptor holds the null pointer (\<open>None\<close>).
  A page carries its page number and the records stored on it, in the order in which the
  page iterator yields them. A record is a byte string.
\<close>

type_synonym FileId = nat
type_synonym PageId = nat
type_synonym FrameId = "32 word"

record Page =
  page_number :: PageId
  records :: "string list"

text \<open>The exceptions that can leave the modelled functions.\<close>

datatype error =
    BufferExceededException
  | PageNotPinnedException
  | PagePinnedException
  | BadBufferException
  | InvalidPageException
  | OutOfRangeException
  | UndefinedBehaviour

text \<open>
  The disk: for every file identity, the pages of that file in the order in which a
  \<open>FileIterator\<close> walks them.
\<close>

type_synonym Disk = "FileId \<Rightarrow> Page list"

text \<open>
  Modelled from the spec: class \<open>File\<close> is an external collaborator that is not part of
  the sources; section 6 of the specification gives \<open>readPage(pageId) \<rightarrow> bytes\<close>,
  \<open>writePage(pageId, bytes)\<close> and \<open>allocatePage() \<rightarrow> bytes-with-new-id\<close>. Reading a page
  that the file does not hold raises.
\<close>

definition File_readPage :: "FileId \<Rightarrow> PageId \<Rightarrow> Disk \<Rightarrow> error + Page" where
  "File_readPage f n d =
     (case find (\<lambda>p. page_number p = n) (d f) of
        None \<Rightarrow> Inl InvalidPageException
      | Some p \<Rightarrow> Inr p)"

definition File_writePage :: "FileId \<Rightarrow> Page \<Rightarrow> Disk \<Rightarrow> Disk" where
  "File_writePage f p d =
     d(f := map (\<lambda>q. if page_number q = page_number p then p else q) (d f))"

definition File_allocatePage :: "FileId \<Rightarrow> Disk \<Rightarrow> Page \<times> Disk" where
  "File_allocatePage f d =
     (let p = \<lparr>page_number = Suc (fold max (map page_number (d f)) 0), records = []\<rparr>
      in (p, d(f := d f @ [p])))"

section \<open>The buffer manager (buffer.cpp)\<close>

record BufDesc =
  filePtr :: "FileId option"
  pageNo :: PageId
  frameNo :: FrameId
  pinCnt :: nat
  dirty :: bool
  valid :: bool
  refbit :: bool

text \<open>
  Modelled from the spec: \<open>BufDesc::Clear\<close> and \<open>BufDesc::Set\<close> are declared in buffer.h,
  which is not part of the sources. The specification says that a cleared descriptor has
  \<open>valid = false\<close>, \<open>pinCount = 0\<close> and \<open>dirty = false\<close>, and that installing a page sets
  \<open>{file, pageId, pinCount = 1, referenced = true, dirty = false, valid = true}\<close>.
\<close>

definition Clear :: "BufDesc \<Rightarrow> BufDesc" where
  "Clear bd = bd\<lparr>filePtr := None, pageNo := 0, pinCnt := 0,
                 dirty := False, valid := False, refbit := False\<rparr>"

definition Set_desc :: "FileId \<Rightarrow> PageId \<Rightarrow> BufDesc \<Rightarrow> BufDesc" where
  "Set_desc f n bd = bd\<lparr>filePtr := Some f, pageNo := n, pinCnt := 1,
                       dirty := False, valid := True, refbit := True\<rparr>"

text \<open>
  The descriptor table and the frame pool are C arrays of \<open>numBufs\<close> elements; they are
  modelled as stores from frame numbers to values.
  Modelled from the spec: the class \<open>BufHashTbl\<close> is not part of the sources. The
  specification describes the page index as a mapping from (file identity, page id) to
  the frame, with \<open>insert\<close> adding the mapping, \<open>lookup\<close> failing when it is absent and
  \<open>remove\<close> deleting it; the model is a map, and \<open>remove\<close> is the deletion of the key.
  \<open>numBufs\<close>, \<open>clockHand\<close>, frame numbers and the local counter \<open>pinned\<close> of
  \<open>allocBuf\<close> are 32-bit unsigned in the source and are 32-bit words here. The pin count
  is a natural number: it is decremented only when it is positive, and its overflow is
  not modelled.
\<close>

record BufMgr =
  numBufs :: "32 word"
  bufDescTable :: "FrameId \<Rightarrow> BufDesc"
  bufPool :: "FrameId \<Rightarrow> Page"
  hashTable :: "FileId \<times> PageId \<Rightarrow> FrameId option"
  clockHand :: FrameId

text \<open>The constructor \<open>BufMgr::BufMgr(bufs)\<close>.\<close>

definition BufMgr_new :: "32 word \<Rightarrow> BufMgr" where
  "BufMgr_new bufs =
     \<lparr>numBufs = bufs,
      bufDescTable = (\<lambda>i. \<lparr>filePtr = None, pageNo = 0, frameNo = i, pinCnt = 0,
                           dirty = False, valid = False, refbit = False\<rparr>),
      bufPool = (\<lambda>i. \<lparr>page_number = 0, records = []\<rparr>),
      hashTable = Map.empty,
      clockHand = bufs - 1\<rparr>"

definition advanceClock :: "BufMgr \<Rightarrow> BufMgr" where
  "advanceClock b = b\<lparr>clockHand := (clockHand b + 1) mod numBufs b\<rparr>"

definition setDesc :: "FrameId \<Rightarrow> BufDesc \<Rightarrow> BufMgr \<Rightarrow> BufMgr" where
  "setDesc i bd b = b\<lparr>bufDescTable := (bufDescTable b)(i := bd)\<rparr>"

text \<open>
  The number of reference bits that are set; every turn of the loop of \<open>allocBuf\<close> that
  neither selects a frame nor counts a pinned one clears one of them.
\<close>

definition refCount :: "BufMgr \<Rightarrow> nat" where
  "refCount b = card {i. i < numBufs b \<and> refbit (bufDescTable b i)}"

text \<open>
  The loop of \<open>BufMgr::allocBuf\<close>, with the local counter \<open>pinned\<close> as an argument.
  With \<open>numBufs = 0\<close> the remainder in \<open>advanceClock\<close> divides by zero, which is
  undefined behaviour in C++. The last \<open>else if\<close> of the source tests
  \<open>refbit == false\<close>; it is reached only after \<open>refbit == true\<close> has failed, so
  it is the final \<open>else\<close>.
\<close>

definition handDesc :: "BufMgr \<Rightarrow> BufDesc" where
  "handDesc b = bufDescTable b (clockHand b)"

text \<open>
  The last branch of the loop body: write back if dirty, drop the index entry, clear.
  A valid descriptor carries a file; for the null pointer the model leaves the disk and
  the index as they are.
\<close>

definition evictHand :: "BufMgr \<times> Disk \<Rightarrow> (error + FrameId) \<times> BufMgr \<times> Disk" where
  "evictHand = (\<lambda>(b, d).
     let bd = handDesc b;
         d1 = (if dirty bd
               then (case filePtr bd of
                       Some f \<Rightarrow> File_writePage f (bufPool b (clockHand b)) d
                     | None \<Rightarrow> d)
               else d);
         b2 = (case filePtr bd of
                 Some f \<Rightarrow> b\<lparr>hashTable := (hashTable b)((f, pageNo bd) := None)\<rparr>
               | None \<Rightarrow> b)
     in (Inr (clockHand b), setDesc (clockHand b) (Clear bd) b2, d1))"

function allocBuf_loop :: "32 word \<Rightarrow> BufMgr \<times> Disk \<Rightarrow> (error + FrameId) \<times> BufMgr \<times> Disk" where
  "allocBuf_loop pinned (b, d) =
     (if numBufs b = 0 then (Inl UndefinedBehaviour, b, d)
      else if pinned = numBufs b then (Inl BufferExceededException, advanceClock b, d)
      else if \<not> valid (handDesc (advanceClock b))
        then (Inr (clockHand (advanceClock b)),
              setDesc (clockHand (advanceClock b)) (Clear (handDesc (advanceClock b)))
                (advanceClock b), d)
      else if refbit (handDesc (advanceClock b))
        then allocBuf_loop pinned
               (setDesc (clockHand (advanceClock b))
                  ((handDesc (advanceClock b))\<lparr>refbit := False\<rparr>) (advanceClock b), d)
      else if pinCnt (handDesc (advanceClock b)) > 0
        then allocBuf_loop (pinned + 1) (advanceClock b, d)
      else evictHand (advanceClock b, d))"
  by pat_completeness auto

lemma refCount_clear:
  assumes "h < numBufs b" "refbit (bufDescTable b h)"
  shows "refCount (setDesc h ((bufDescTable b h)\<lparr>refbit := False\<rparr>) b) < refCount b"
proof -
  let ?A = "{i. i < numBufs b \<and> refbit (bufDescTable b i)}"
  let ?b = "setDesc h ((bufDescTable b h)\<lparr>refbit := False\<rparr>) b"
  have eq: "{i. i < numBufs ?b \<and> refbit (bufDescTable ?b i)} = ?A - {h}"
    by (auto simp: setDesc_def)
  have "h \<in> ?A" using assms by simp
  moreover have "finite ?A" by simp
  ultimately have "card (?A - {h}) < card ?A" by (rule card_Diff1_less [rotated])
  then show ?thesis unfolding refCount_def eq .
qed

lemma advanceClock_hand_less:
  "numBufs b \<noteq> 0 \<Longrightarrow> clockHand (advanceClock b) < numBufs b"
  by (simp add: advanceClock_def word_mod_less_divisor word_neq_0_conv)

lemma advanceClock_fields [simp]:
  "numBufs (advanceClock b) = numBufs b"
  "bufDescTable (advanceClock b) = bufDescTable b"
  "bufPool (advanceClock b) = bufPool b"
  "hashTable (advanceClock b) = hashTable b"
  by (simp_all add: advanceClock_def)

lemma setDesc_fields [simp]:
  "numBufs (setDesc i bd b) = numBufs b"
  "bufDescTable (setDesc i bd b) = (bufDescTable b)(i := bd)"
  "bufPool (setDesc i bd b) = bufPool b"
  "hashTable (setDesc i bd b) = hashTable b"
  "clockHand (setDesc i bd b) = clockHand b"
  by (simp_all add: setDesc_def)

lemma refCount_advanceClock [simp]: "refCount (advanceClock b) = refCount b"
  by (simp add: refCount_def)

lemma unat_minus_Suc:
  fixes n p :: "32 word"
  assumes "p \<noteq> n"
  shows "unat (n - (p + 1)) < unat (n - p)"
proof -
  have "n - p \<noteq> 0" using assms by simp
  then have "unat (n - p - 1) < unat (n - p)"
    by (simp add: unat_minus_one unat_gt_0 word_neq_0_conv)
  then show ?thesis by (simp add: diff_diff_eq add.commute)
qed

lemma allocBuf_loop_measure_ref:
  assumes "numBufs b \<noteq> 0" "refbit (handDesc (advanceClock b))"
  shows "refCount (setDesc (clockHand (advanceClock b))
            ((handDesc (advanceClock b))\<lparr>refbit := False\<rparr>) (advanceClock b))
         < refCount b"
  using refCount_clear [of "clockHand (advanceClock b)" "advanceClock b"]
        advanceClock_hand_less [OF assms(1)] assms(2)
  by (simp add: handDesc_def)

termination allocBuf_loop
  apply (relation "measure (\<lambda>(pinned, b, d). refCount b + unat (numBufs b - pinned))")
    apply simp
   apply (simp add: allocBuf_loop_measure_ref)
  apply (simp add: unat_minus_Suc)
  done

declare allocBuf_loop.simps [simp del]

definition allocBuf :: "BufMgr \<times> Disk \<Rightarrow> (error + FrameId) \<times> BufMgr \<times> Disk" where
  "allocBuf s = allocBuf_loop 0 s"

text \<open>
  \<open>BufMgr::readPage\<close>. The returned \<open>Page*\<close> points into the pool, so the model returns
  the frame number. The exception of \<open>allocBuf\<close> is raised inside the handler of
  \<open>HashNotFoundException\<close> and leaves \<open>readPage\<close>.
\<close>

definition readPage :: "FileId \<Rightarrow> PageId \<Rightarrow> BufMgr \<times> Disk \<Rightarrow> (error + FrameId) \<times> BufMgr \<times> Disk" where
  "readPage f n = (\<lambda>(b, d).
     case hashTable b (f, n) of
       Some frame \<Rightarrow>
         (Inr frame,
          setDesc frame ((bufDescTable b frame)
                           \<lparr>pinCnt := pinCnt (bufDescTable b frame) + 1, refbit := True\<rparr>) b,
          d)
     | None \<Rightarrow>
         (case allocBuf (b, d) of
            (Inl e, b1, d1) \<Rightarrow> (Inl e, b1, d1)
          | (Inr frame, b1, d1) \<Rightarrow>
              (case File_readPage f n d1 of
                 Inl e \<Rightarrow> (Inl e, b1, d1)
               | Inr p \<Rightarrow>
                   (Inr frame,
                    setDesc frame (Set_desc f n (bufDescTable b1 frame))
                      (b1\<lparr>bufPool := (bufPool b1)(frame := p),
                          hashTable := (hashTable b1)((f, n) \<mapsto> frame)\<rparr>),
                    d1))))"

text \<open>\<open>BufMgr::unPinPage\<close>; it does not touch the disk.\<close>

definition unPinPage :: "FileId \<Rightarrow> PageId \<Rightarrow> bool \<Rightarrow> BufMgr \<Rightarrow> (error + unit) \<times> BufMgr" where
  "unPinPage f n isDirty b =
     (case hashTable b (f, n) of
        Some frame \<Rightarrow>
          (if pinCnt (bufDescTable b frame) > 0
           then (Inr (),
                 setDesc frame
                   (let bd = (bufDescTable b frame)\<lparr>pinCnt := pinCnt (bufDescTable b frame) - 1\<rparr>
                    in if isDirty then bd\<lparr>dirty := isDirty\<rparr> else bd) b)
           else (Inl PageNotPinnedException, b))
      | None \<Rightarrow> (Inr (), b))"

text \<open>
  \<open>BufMgr::flushFile\<close>: the loop over the frames \<open>0 .. numBufs - 1\<close>, given as a list, and
  the function itself.
\<close>

fun flushFile_frames :: "FileId \<Rightarrow> FrameId list \<Rightarrow> BufMgr \<times> Disk \<Rightarrow> (error + unit) \<times> BufMgr \<times> Disk" where
  "flushFile_frames f [] (b, d) = (Inr (), b, d)"
| "flushFile_frames f (i # is) (b, d) =
     (if filePtr (bufDescTable b i) = Some f then
        (if pinCnt (bufDescTable b i) \<noteq> 0 then (Inl PagePinnedException, b, d)
         else if \<not> valid (bufDescTable b i) then (Inl BadBufferException, b, d)
         else
           flushFile_frames f is
             (setDesc i (Clear ((bufDescTable b i)\<lparr>dirty := False\<rparr>))
                (b\<lparr>hashTable := (hashTable b)((f, page_number (bufPool b i)) := None)\<rparr>),
              if dirty (bufDescTable b i) then File_writePage f (bufPool b i) d else d))
      else flushFile_frames f is (b, d))"

definition flushFile :: "FileId \<Rightarrow> BufMgr \<times> Disk \<Rightarrow> (error + unit) \<times> BufMgr \<times> Disk" where
  "flushFile f = (\<lambda>(b, d).
     flushFile_frames f (map of_nat [0 ..< unat (numBufs b)]) (b, d))"

text \<open>
  \<open>BufMgr::allocPage\<close>: the file makes the new page first, then a frame is obtained; the
  result is the new page number and the frame it is pinned in.
\<close>

definition allocPage :: "FileId \<Rightarrow> BufMgr \<times> Disk \<Rightarrow> (error + PageId \<times> FrameId) \<times> BufMgr \<times> Disk" where
  "allocPage f = (\<lambda>(b, d).
     let (new_page, d0) = File_allocatePage f d in
     case allocBuf (b, d0) of
       (Inl e, b1, d1) \<Rightarrow> (Inl e, b1, d1)
     | (Inr frame, b1, d1) \<Rightarrow>
         (Inr (page_number new_page, frame),
          setDesc frame (Set_desc f (page_number new_page) (bufDescTable b1 frame))
            (b1\<lparr>hashTable := (hashTable b1)((f, page_number new_page) \<mapsto> frame),
                bufPool := (bufPool b1)(frame := new_page)\<rparr>),
          d1))"

section \<open>The eviction scan as a sequence of visits\<close>

text \<open>
  The specification describes eviction as a scan: the hand advances, and the frame under
  it is either selected (invalid, or unreferenced and unpinned), or has its reference bit
  cleared, or is an unevictable (pinned) encounter. The following definitions follow
  these words; they are compared with the loop of \<open>allocBuf\<close> below.
\<close>

datatype outcome = Selected | RefCleared | Unevictable

definition inspect :: "BufDesc \<Rightarrow> outcome" where
  "inspect bd =
     (if \<not> valid bd then Selected
      else if refbit bd then RefCleared
      else if pinCnt bd > 0 then Unevictable
      else Selected)"

text \<open>Passing over a frame: the hand advances and a set reference bit is cleared.\<close>

definition passOver :: "BufMgr \<Rightarrow> BufMgr" where
  "passOver b =
     (let b1 = advanceClock b in
      if inspect (handDesc b1) = RefCleared
      then setDesc (clockHand b1) ((handDesc b1)\<lparr>refbit := False\<rparr>) b1
      else b1)"

text \<open>What visit number \<open>k\<close> (counted from 0) of a scan that starts in \<open>b\<close> finds.\<close>

definition visit :: "nat \<Rightarrow> BufMgr \<Rightarrow> outcome" where
  "visit k b = inspect (handDesc (advanceClock ((passOver ^^ k) b)))"

definition unevictableEncounters :: "nat \<Rightarrow> BufMgr \<Rightarrow> nat" where
  "unevictableEncounters k b = length (filter (\<lambda>j. visit j b = Unevictable) [0 ..< k])"

definition selectionWithin :: "nat \<Rightarrow> BufMgr \<Rightarrow> bool" where
  "selectionWithin k b = (\<exists>j < k. visit j b = Selected)"

section \<open>Example pools\<close>

definition diskA :: Disk where
  "diskA = (\<lambda>_. [])(0 := [\<lparr>page_number = 1, records = []\<rparr>,
                            \<lparr>page_number = 2, records = []\<rparr>,
                            \<lparr>page_number = 3, records = []\<rparr>,
                            \<lparr>page_number = 4, records = []\<rparr>])"

text \<open>
  A pool of two frames after \<open>readPage(A,1)\<close> (kept pinned), \<open>readPage(A,2)\<close> and
  \<open>unPinPage(A,2)\<close>: frame 0 holds the pinned page 1, frame 1 the unpinned page 2.
\<close>

definition poolTwo :: "BufMgr \<times> Disk" where
  "poolTwo =
     (let s1 = snd (readPage 0 1 (BufMgr_new 2, diskA));
          s2 = snd (readPage 0 2 s1)
      in (snd (unPinPage 0 2 False (fst s2)), snd s2))"

text \<open>
  The same pool after \<open>readPage(A,3)\<close> and \<open>unPinPage(A,3)\<close> as well: frame 0 still
  holds the pinned page 1, its reference bit now cleared; frame 1 holds page 3, unpinned
  and referenced; the hand is at 1.
\<close>

definition poolHeld :: "BufMgr \<times> Disk" where
  "poolHeld =
     (let s4 = snd (readPage 0 3 poolTwo)
      in (snd (unPinPage 0 3 False (fst s4)), snd s4))"

section \<open>Schemas and the tuple walk of the join (executor.cpp)\<close>

text \<open>
  The code compares \<open>DataType\<close> values with 0, 1 and 2 and comments them as INT,
  CHAR(n) and VARCHAR(n); the constructors carry the prefix \<open>DT_\<close> here.
  An attribute is built from its name, type, maximal size and
  the two flags.
\<close>

datatype DataType = DT_INT | DT_CHAR | DT_VARCHAR

record Attribute =
  attrName :: string
  attrType :: DataType
  attrMaxSize :: nat
  isAttrNotNull :: bool
  isAttrUnique :: bool

type_synonym TableSchema = "Attribute list"

text \<open>
  \<open>JoinOperator::getCommonAttributes\<close>: for every right attribute, in order, one copy of
  it for every left attribute of the same type and the same name.
\<close>

definition getCommonAttributes :: "TableSchema \<Rightarrow> TableSchema \<Rightarrow> Attribute list" where
  "getCommonAttributes leftTableSchema rightTableSchema =
     concat (map (\<lambda>r. concat (map (\<lambda>l. if attrType l = attrType r \<and> attrName l = attrName r
                                         then [r] else []) leftTableSchema))
                 rightTableSchema)"

text \<open>
  The two loops at the start of \<open>NestedLoopJoinOperator::execute\<close> that fill the local
  \<open>sameName\<close>, the list of join columns that \<open>execute\<close> hands to \<open>handle_tuple\<close>.
\<close>

definition sameName_of :: "TableSchema \<Rightarrow> TableSchema \<Rightarrow> string list" where
  "sameName_of leftTableSchema rightTableSchema =
     (let attrname = map attrName leftTableSchema
      in map attrName (filter (\<lambda>r. count_list attrname (attrName r) \<noteq> 0) rightTableSchema))"

text \<open>
  Modelled from the spec: \<open>TableSchema::getAttrNum\<close> is declared in schema.h, which is
  not part of the sources. The specification speaks of the attribute whose name appears
  in the list of common names; the model returns the position of the first attribute
  with that name. What the function does for a name that the schema lacks is unknown
  and is an error of the model.
\<close>

fun getAttrNum :: "TableSchema \<Rightarrow> string \<Rightarrow> nat option" where
  "getAttrNum [] nm = None"
| "getAttrNum (a # as) nm =
     (if attrName a = nm then Some 0 else map_option Suc (getAttrNum as nm))"

text \<open>
  \<open>index\<close> is a 32-bit signed \<open>int\<close> in \<open>handle_tuple\<close>. It never decreases, so
  it is a natural number here, and every place where the source computes a value above
  \<open>INT_MAX\<close> is a signed overflow, which is undefined behaviour.
\<close>

definition INT_MAX :: nat where
  "INT_MAX = 2147483647"

text \<open>
  \<open>tup[position]\<close> with \<open>std::string::operator[]\<close>: the position is an \<open>int\<close>
  expression such as \<open>index + k\<close>; the position equal to the size yields the null
  character, a position beyond it is undefined behaviour.
\<close>

definition str_at :: "string \<Rightarrow> nat \<Rightarrow> error + char" where
  "str_at s i =
     (if i > INT_MAX then Inl UndefinedBehaviour
      else if i < length s then Inr (s ! i)
      else if i = length s then Inr (CHR 0x00)
      else Inl UndefinedBehaviour)"

text \<open>The characters at positions \<open>i, i + 1, .., i + n - 1\<close>, read one at a time.\<close>

fun str_read :: "string \<Rightarrow> nat \<Rightarrow> nat \<Rightarrow> error + string" where
  "str_read s i 0 = Inr []"
| "str_read s i (Suc n) =
     (case str_at s i of
        Inl e \<Rightarrow> Inl e
      | Inr c \<Rightarrow> (case str_read s (Suc i) n of
                    Inl e \<Rightarrow> Inl e
                  | Inr cs \<Rightarrow> Inr (c # cs)))"

text \<open>
  \<open>std::string::erase(pos, len)\<close> raises \<open>std::out_of_range\<close> when \<open>pos\<close> is beyond
  the size and removes at most the rest of the string otherwise. The position is
  computed as \<open>index - already_delete\<close>, an \<open>int\<close> minus an \<open>unsigned int\<close>, which is
  an unsigned 32-bit difference and wraps around when \<open>already_delete\<close> is larger.
  \<open>already_delete\<close> itself is a 32-bit unsigned counter, and its additions wrap.
\<close>

definition erase_pos :: "nat \<Rightarrow> nat \<Rightarrow> nat" where
  "erase_pos index already_delete = nat ((int index - int already_delete) mod 2 ^ 32)"

definition uint_add :: "nat \<Rightarrow> nat \<Rightarrow> nat" where
  "uint_add already_delete k = (already_delete + k) mod 2 ^ 32"

definition str_erase :: "string \<Rightarrow> nat \<Rightarrow> nat \<Rightarrow> error + string" where
  "str_erase s pos len =
     (if pos > length s then Inl OutOfRangeException
      else Inr (take pos s @ drop (pos + len) s))"

text \<open>
  \<open>ss << tup[index]; ss >> size\<close> writes one character into a string stream and reads
  a decimal \<open>int\<close> back: a digit character gives its value, any other character makes
  the extraction fail and leaves 0.
\<close>

definition digit_of :: "char \<Rightarrow> nat" where
  "digit_of c =
     (if (48::nat) \<le> of_char c \<and> of_char c \<le> (57::nat) then of_char c - 48 else 0)"

text \<open>
  The state of the walk: \<open>hashString\<close>, \<open>last\<close>, \<open>already_delete\<close> and \<open>index\<close>.
  The statement \<open>index += k\<close> is the test against \<open>INT_MAX\<close> before the rest of the
  walk.
  \<open>walk_attrs\<close> is the inner loop \<open>for j = 0 .. rank\<close> of \<open>handle_tuple\<close> over the
  attributes \<open>0 .. rank\<close> of the schema; \<open>j == rank\<close> holds at the last of them.
\<close>

type_synonym walk = "string \<times> string \<times> nat \<times> nat"

fun walk_attrs :: "Attribute list \<Rightarrow> string \<Rightarrow> walk \<Rightarrow> error + walk" where
  "walk_attrs [] tup w = Inr w"
| "walk_attrs (a # as) tup (hashString, lastv, already_delete, index) =
     (case attrType a of
        DT_INT \<Rightarrow>
          (if as = [] then
             (case str_read tup index 4 of
                Inl e \<Rightarrow> Inl e
              | Inr bytes \<Rightarrow>
                  (case str_erase lastv (erase_pos index already_delete) 4 of
                     Inl e \<Rightarrow> Inl e
                   | Inr lastv' \<Rightarrow>
                       if index + 4 > INT_MAX then Inl UndefinedBehaviour
                       else walk_attrs as tup
                              (hashString @ bytes, lastv', uint_add already_delete 4,
                               index + 4)))
           else if index + 4 > INT_MAX then Inl UndefinedBehaviour
           else walk_attrs as tup (hashString, lastv, already_delete, index + 4))
      | DT_CHAR \<Rightarrow>
          (if as = [] then
             (case str_read tup index (attrMaxSize a) of
                Inl e \<Rightarrow> Inl e
              | Inr bytes \<Rightarrow>
                  (case str_erase lastv (erase_pos index already_delete) (attrMaxSize a) of
                     Inl e \<Rightarrow> Inl e
                   | Inr lastv' \<Rightarrow>
                       if index + attrMaxSize a > INT_MAX then Inl UndefinedBehaviour
                       else walk_attrs as tup
                              (hashString @ bytes, lastv',
                               uint_add already_delete (attrMaxSize a),
                               index + attrMaxSize a)))
           else if index + attrMaxSize a > INT_MAX then Inl UndefinedBehaviour
           else walk_attrs as tup (hashString, lastv, already_delete, index + attrMaxSize a))
      | DT_VARCHAR \<Rightarrow>
          (case str_at tup index of
             Inl e \<Rightarrow> Inl e
           | Inr c \<Rightarrow>
               (let size = digit_of c in
                if as = [] then
                  (case str_read tup (index + 1) size of
                     Inl e \<Rightarrow> Inl e
                   | Inr bytes \<Rightarrow>
                       (case str_erase lastv (erase_pos index already_delete) (size + 1) of
                          Inl e \<Rightarrow> Inl e
                        | Inr lastv' \<Rightarrow>
                            if index + (size + 1) > INT_MAX then Inl UndefinedBehaviour
                            else walk_attrs as tup
                                   (hashString @ bytes, lastv',
                                    uint_add already_delete (size + 1),
                                    index + (size + 1))))
                else if index + (size + 1) > INT_MAX then Inl UndefinedBehaviour
                else walk_attrs as tup (hashString, lastv, already_delete, index + (size + 1)))))"

text \<open>
  One turn of the outer loop of \<open>handle_tuple\<close>, for the common attribute \<open>comAttr\<close>:
  the walk from attribute 0 with \<open>index = 0\<close>, then the removal of the padding up to the
  next multiple of 4. The result is \<open>hashString\<close>, \<open>last\<close> and \<open>already_delete\<close>.
\<close>

definition handle_attr ::
  "TableSchema \<Rightarrow> string \<Rightarrow> string \<Rightarrow> string \<times> string \<times> nat \<Rightarrow> error + string \<times> string \<times> nat" where
  "handle_attr tableSchema tup comAttr = (\<lambda>(hashString, lastv, already_delete).
     case getAttrNum tableSchema comAttr of
       None \<Rightarrow> Inl UndefinedBehaviour
     | Some rank \<Rightarrow>
         (case walk_attrs (take (Suc rank) tableSchema) tup
                 (hashString, lastv, already_delete, 0) of
            Inl e \<Rightarrow> Inl e
          | Inr (hashString', lastv', already_delete', index) \<Rightarrow>
              (if index mod 4 \<noteq> 0 then
                 (case str_erase lastv' (erase_pos index already_delete') (4 - index mod 4) of
                    Inl e \<Rightarrow> Inl e
                  | Inr lastv'' \<Rightarrow>
                      if index + (4 - index mod 4) > INT_MAX then Inl UndefinedBehaviour
                      else Inr (hashString', lastv'',
                                uint_add already_delete' (4 - index mod 4)))
               else Inr (hashString', lastv', already_delete'))))"

fun handle_attrs ::
  "TableSchema \<Rightarrow> string \<Rightarrow> string list \<Rightarrow> string \<times> string \<times> nat \<Rightarrow> error + string \<times> string \<times> nat" where
  "handle_attrs tableSchema tup [] st = Inr st"
| "handle_attrs tableSchema tup (comAttr # rest) st =
     (case handle_attr tableSchema tup comAttr st of
        Inl e \<Rightarrow> Inl e
      | Inr st' \<Rightarrow> handle_attrs tableSchema tup rest st')"

text \<open>
  \<open>handle_tuple(hashString, sameName, tup, last, tableSchema)\<close>: the two reference
  arguments \<open>hashString\<close> and \<open>last\<close> (here \<open>lastv\<close>) are returned as the result,
  the key and the remainder.
\<close>

definition handle_tuple ::
  "string \<Rightarrow> string list \<Rightarrow> string \<Rightarrow> string \<Rightarrow> TableSchema \<Rightarrow> error + string \<times> string" where
  "handle_tuple hashString sameName tup lastv tableSchema =
     (case handle_attrs tableSchema tup sameName (hashString, lastv @ tup, 0) of
        Inl e \<Rightarrow> Inl e
      | Inr (hashString', lastv', already_delete) \<Rightarrow> Inr (hashString', lastv'))"

section \<open>The tuple codec as the specification words it\<close>

text \<open>
  The following definitions follow the words of the specification (sections 3 and
  4.1), not the code; \<open>handle_tuple\<close> is compared with them below.
  \<open>attributeSpan\<close>: 4 bytes for INT, \<open>n\<close> padded to a multiple of 4 for CHAR(n), and
  \<open>1 + L\<close> padded to a multiple of 4 for VARCHAR(n), where \<open>L\<close> is the length byte.
\<close>

definition pad4 :: "nat \<Rightarrow> nat" where
  "pad4 n = n + (4 - n mod 4) mod 4"

definition attributeSpan :: "Attribute \<Rightarrow> string \<Rightarrow> nat" where
  "attributeSpan a bytes =
     (case attrType a of
        DT_INT \<Rightarrow> 4
      | DT_CHAR \<Rightarrow> pad4 (attrMaxSize a)
      | DT_VARCHAR \<Rightarrow> pad4 (1 + (case bytes of [] \<Rightarrow> 0 | c # cs \<Rightarrow> of_char c)))"

text \<open>
  \<open>extractJoinKeyAndRemainder\<close>: walk the attributes of the schema in order; the span
  of an attribute whose name is in the list goes to the key, every other span stays in
  the remainder; bytes beyond the last attribute stay in the remainder.
\<close>

fun extractJoinKeyAndRemainder :: "string \<Rightarrow> string list \<Rightarrow> TableSchema \<Rightarrow> string \<times> string" where
  "extractJoinKeyAndRemainder tuple commonAttrNames [] = ([], tuple)"
| "extractJoinKeyAndRemainder tuple commonAttrNames (a # as) =
     (let n = attributeSpan a tuple;
          (key, remainder) = extractJoinKeyAndRemainder (drop n tuple) commonAttrNames as
      in if attrName a \<in> set commonAttrNames
         then (take n tuple @ key, remainder)
         else (key, take n tuple @ remainder))"

text \<open>
  An attribute whose encoding has a fixed width and no padding: INT, or CHAR(n) with
  \<open>n\<close> a multiple of 4; the width of such an attribute; the length of a tuple of a
  schema of such attributes.
\<close>

definition fixedAligned :: "Attribute \<Rightarrow> bool" where
  "fixedAligned a =
     (attrType a = DT_INT \<or> (attrType a = DT_CHAR \<and> attrMaxSize a mod 4 = 0))"

definition width :: "Attribute \<Rightarrow> nat" where
  "width a = (if attrType a = DT_INT then 4 else attrMaxSize a)"

definition encodedLength :: "TableSchema \<Rightarrow> nat" where
  "encodedLength schema = sum_list (map width schema)"

section \<open>The join operators (executor.cpp)\<close>

text \<open>
  The operator object. \<open>execute\<close> does not use the members \<open>leftTableFile\<close> and
  \<open>rightTableFile\<close>: it opens the files of the two tables through the catalog into the
  locals \<open>leftfile\<close> and \<open>rightfile\<close>, and the buffer manager keys its frames on the
  addresses of these locals. The model keeps the identities of the two locals with the
  operator. They are two identities even when both tables are the same (a self-join
  has two identities with the same pages on disk), and the pool the call starts with
  holds a frame under one of them only if an earlier local at the same address left it
  there. The three counters are integers; their overflow is not modelled.
\<close>

record JoinOperator =
  leftfile :: FileId
  rightfile :: FileId
  leftTableSchema :: TableSchema
  rightTableSchema :: TableSchema
  resultTableSchema :: TableSchema
  isComplete :: bool
  numResultTuples :: int
  numUsedBufPages :: int
  numIOs :: int

text \<open>
  \<open>JoinOperator::createResultTableSchema\<close>: all left attributes, then the right
  attributes that have no left attribute of the same type and name.
\<close>

definition createResultTableSchema :: "TableSchema \<Rightarrow> TableSchema \<Rightarrow> TableSchema" where
  "createResultTableSchema leftSchema rightSchema =
     leftSchema @
     filter (\<lambda>r. \<not> list_ex (\<lambda>l. attrType l = attrType r \<and> attrName l = attrName r) leftSchema)
            rightSchema"

text \<open>The constructor; the counters are not initialised by it and start at 0 here.\<close>

definition JoinOperator_new :: "FileId \<Rightarrow> FileId \<Rightarrow> TableSchema \<Rightarrow> TableSchema \<Rightarrow> JoinOperator" where
  "JoinOperator_new lf rf ls rs =
     \<lparr>leftfile = lf, rightfile = rf, leftTableSchema = ls, rightTableSchema = rs,
      resultTableSchema = createResultTableSchema ls rs, isComplete = False,
      numResultTuples = 0, numUsedBufPages = 0, numIOs = 0\<rparr>"

text \<open>
  \<open>OnePassJoinOperator::execute\<close> and \<open>GraceHashJoinOperator::execute\<close> have the same
  body. Neither touches the buffer manager or the result file, so the model maps the
  operator to the returned boolean and the operator afterwards.
\<close>

definition OnePassJoin_execute :: "32 word \<Rightarrow> FileId \<Rightarrow> JoinOperator \<Rightarrow> bool \<times> JoinOperator" where
  "OnePassJoin_execute numAvailableBufPages resultFile op =
     (if isComplete op then (True, op)
      else (True, op\<lparr>numResultTuples := 0, numUsedBufPages := 0, numIOs := 0,
                     isComplete := True\<rparr>))"

definition GraceHashJoin_execute :: "32 word \<Rightarrow> FileId \<Rightarrow> JoinOperator \<Rightarrow> bool \<times> JoinOperator" where
  "GraceHashJoin_execute numAvailableBufPages resultFile op =
     (if isComplete op then (True, op)
      else (True, op\<lparr>numResultTuples := 0, numUsedBufPages := 0, numIOs := 0,
                     isComplete := True\<rparr>))"

text \<open>
  \<open>HeapFileManager::insertTuple\<close> is not part of the sources. It is a parameter of the
  model of \<open>NestedLoopJoinOperator::execute\<close>: a function from the tuple, the result
  file and the buffer manager with the disk to an exception or to the buffer manager
  and disk afterwards.
\<close>

type_synonym insertTuple = "string \<Rightarrow> FileId \<Rightarrow> BufMgr \<times> Disk \<Rightarrow> error + BufMgr \<times> Disk"

text \<open>
  The locals of \<open>NestedLoopJoinOperator::execute\<close> that live across the loops, with
  the operator and the buffer manager and disk. An exception leaves \<open>execute\<close>; the
  state it leaves behind is not part of the result.
\<close>

record NLJ =
  jop :: JoinOperator
  bm :: "BufMgr \<times> Disk"
  usedPage :: "PageId list"
  already_in_buf :: "Page list"
  hashMap :: "string \<Rightarrow> string list option"
  read_page_num :: int
  usedPageNum :: int

text \<open>The loop over the tuples of one right page (build).\<close>

fun build_tuples ::
  "string list \<Rightarrow> TableSchema \<Rightarrow> string list \<Rightarrow> (string \<Rightarrow> string list option)
   \<Rightarrow> error + (string \<Rightarrow> string list option)" where
  "build_tuples sameName schema [] hm = Inr hm"
| "build_tuples sameName schema (righttuple # ts) hm =
     (case handle_tuple [] sameName righttuple [] schema of
        Inl e \<Rightarrow> Inl e
      | Inr (hashString, lastv) \<Rightarrow>
          build_tuples sameName schema ts
            (hm(hashString \<mapsto> (case hm hashString of
                                   Some stringList \<Rightarrow> stringList @ [lastv]
                                 | None \<Rightarrow> [lastv]))))"

text \<open>
  The loop over the pages of the right file (build), with its \<open>break\<close> and
  \<open>continue\<close>. The file iterator is given as the list of the pages of the file.
  \<open>numAvailableBufPages\<close> is a 32-bit signed \<open>int\<close>, a 32-bit word read as signed
  here: at \<open>INT_MIN\<close> the difference \<open>numAvailableBufPages - 1\<close> overflows and wraps
  around to \<open>INT_MAX\<close>, as the compiled code does.
\<close>

fun build_pages :: "32 word \<Rightarrow> string list \<Rightarrow> Page list \<Rightarrow> NLJ \<Rightarrow> error + NLJ" where
  "build_pages numAvailableBufPages sameName [] st = Inr st"
| "build_pages numAvailableBufPages sameName (pg # pgs) st =
     (if read_page_num st \<ge> sint (numAvailableBufPages - 1) then Inr st
      else if count_list (usedPage st) (page_number pg) \<noteq> 0
        then build_pages numAvailableBufPages sameName pgs st
      else
        (case readPage (rightfile (jop st)) (page_number pg) (bm st) of
           (Inl e, w) \<Rightarrow> Inl e
         | (Inr frame, w) \<Rightarrow>
             (case build_tuples sameName (rightTableSchema (jop st))
                     (records (bufPool (fst w) frame)) (hashMap st) of
                Inl e \<Rightarrow> Inl e
              | Inr hm \<Rightarrow>
                  build_pages numAvailableBufPages sameName pgs
                    (st\<lparr>bm := w, hashMap := hm,
                        usedPage := usedPage st @ [page_number pg],
                        already_in_buf := already_in_buf st @ [bufPool (fst w) frame],
                        jop := (jop st)\<lparr>numIOs := numIOs (jop st) + 1,
                                        numUsedBufPages := numUsedBufPages (jop st) + 1\<rparr>,
                        read_page_num := read_page_num st + 1\<rparr>))))"

text \<open>
  The loop over the remainders stored under the key of a left tuple (probe).
  \<open>lefttuple.insert(lefttuple.size(), temp)\<close> appends to \<open>lefttuple\<close> itself and
  returns it, so the next turn starts from the left tuple as extended so far.
  The state is the counter of result tuples with the buffer manager and disk.
\<close>

fun emit_results ::
  "insertTuple \<Rightarrow> FileId \<Rightarrow> string list \<Rightarrow> string \<Rightarrow> int \<times> BufMgr \<times> Disk
   \<Rightarrow> error + int \<times> BufMgr \<times> Disk" where
  "emit_results ins resultFile [] lefttuple (n, w) = Inr (n, w)"
| "emit_results ins resultFile (temp # same) lefttuple (n, w) =
     (let resultString = lefttuple @ temp in
      case ins resultString resultFile w of
        Inl e \<Rightarrow> Inl e
      | Inr w' \<Rightarrow> emit_results ins resultFile same resultString (n + 1, w'))"

text \<open>The loop over the tuples of one left page (probe).\<close>

fun probe_tuples ::
  "insertTuple \<Rightarrow> FileId \<Rightarrow> string list \<Rightarrow> TableSchema \<Rightarrow> (string \<Rightarrow> string list option)
   \<Rightarrow> string list \<Rightarrow> int \<times> BufMgr \<times> Disk \<Rightarrow> error + int \<times> BufMgr \<times> Disk" where
  "probe_tuples ins resultFile sameName schema hm [] nw = Inr nw"
| "probe_tuples ins resultFile sameName schema hm (lefttuple # ts) nw =
     (case handle_tuple [] sameName lefttuple [] schema of
        Inl e \<Rightarrow> Inl e
      | Inr (hashString, lastv) \<Rightarrow>
          (case hm hashString of
             Some same \<Rightarrow>
               (case emit_results ins resultFile same lefttuple nw of
                  Inl e \<Rightarrow> Inl e
                | Inr nw' \<Rightarrow> probe_tuples ins resultFile sameName schema hm ts nw')
           | None \<Rightarrow> probe_tuples ins resultFile sameName schema hm ts nw))"

text \<open>The loop over the pages of the left file (probe).\<close>

fun probe_pages ::
  "insertTuple \<Rightarrow> FileId \<Rightarrow> string list \<Rightarrow> Page list \<Rightarrow> NLJ \<Rightarrow> error + NLJ" where
  "probe_pages ins resultFile sameName [] st = Inr st"
| "probe_pages ins resultFile sameName (pg # pgs) st =
     (case readPage (leftfile (jop st)) (page_number pg) (bm st) of
        (Inl e, w) \<Rightarrow> Inl e
      | (Inr frame, w) \<Rightarrow>
          (case probe_tuples ins resultFile sameName (leftTableSchema (jop st)) (hashMap st)
                  (records (bufPool (fst w) frame)) (numResultTuples (jop st), w) of
             Inl e \<Rightarrow> Inl e
           | Inr (n, b, d) \<Rightarrow>
               (case unPinPage (leftfile (jop st)) (page_number pg) False b of
                  (Inl e, b') \<Rightarrow> Inl e
                | (Inr u, b') \<Rightarrow>
                    probe_pages ins resultFile sameName pgs
                      (st\<lparr>bm := (b', d),
                          jop := (jop st)\<lparr>numUsedBufPages := numUsedBufPages (jop st) + 1,
                                          numIOs := numIOs (jop st) + 1,
                                          numResultTuples := n\<rparr>\<rparr>))))"

text \<open>The loop that unpins the right pages of \<open>already_in_buf\<close>.\<close>

fun unpin_pages :: "FileId \<Rightarrow> Page list \<Rightarrow> BufMgr \<Rightarrow> error + BufMgr" where
  "unpin_pages f [] b = Inr b"
| "unpin_pages f (pg # pgs) b =
     (case unPinPage f (page_number pg) False b of
        (Inl e, b') \<Rightarrow> Inl e
      | (Inr u, b') \<Rightarrow> unpin_pages f pgs b')"

text \<open>
  The body of the loop \<open>while (usedPageNum < sum)\<close>, one macro-pass: build, probe,
  then lines 400 to 405 of executor.cpp. A file iterator walks the pages of its file as
  they are on disk when its loop starts; the loops use the page numbers only.
\<close>

definition macroPass :: "insertTuple \<Rightarrow> FileId \<Rightarrow> 32 word \<Rightarrow> string list \<Rightarrow> NLJ \<Rightarrow> error + NLJ" where
  "macroPass ins resultFile numAvailableBufPages sameName st =
     (case build_pages numAvailableBufPages sameName
             (snd (bm st) (rightfile (jop st))) st of
        Inl e \<Rightarrow> Inl e
      | Inr st1 \<Rightarrow>
          (let st2 = st1\<lparr>usedPageNum := usedPageNum st1 + read_page_num st1\<rparr> in
           case probe_pages ins resultFile sameName
                  (snd (bm st2) (leftfile (jop st2))) st2 of
             Inl e \<Rightarrow> Inl e
           | Inr st3 \<Rightarrow>
               (case unpin_pages (rightfile (jop st3)) (already_in_buf st3)
                       (fst (bm st3)) of
                  Inl e \<Rightarrow> Inl e
                | Inr b \<Rightarrow>
                    (case flushFile (rightfile (jop st3)) (b, snd (bm st3)) of
                       (Inl e, w) \<Rightarrow> Inl e
                     | (Inr u, w) \<Rightarrow>
                         Inr (st3\<lparr>bm := w, already_in_buf := [], read_page_num := 0\<rparr>)))))"

text \<open>
  The loop \<open>while (usedPageNum < sum)\<close>, with the local \<open>sum\<close> written \<open>sumv\<close>.
  It need not end, so the model takes a bound on the number of macro-passes and yields
  \<open>None\<close> when the bound is used up.
\<close>

fun macroLoop ::
  "insertTuple \<Rightarrow> FileId \<Rightarrow> 32 word \<Rightarrow> string list \<Rightarrow> int \<Rightarrow> nat \<Rightarrow> NLJ \<Rightarrow> (error + NLJ) option" where
  "macroLoop ins resultFile numAvailableBufPages sameName sumv 0 st =
     (if usedPageNum st < sumv then None else Some (Inr st))"
| "macroLoop ins resultFile numAvailableBufPages sameName sumv (Suc fuel) st =
     (if usedPageNum st < sumv then
        (case macroPass ins resultFile numAvailableBufPages sameName st of
           Inl e \<Rightarrow> Some (Inl e)
         | Inr st' \<Rightarrow> macroLoop ins resultFile numAvailableBufPages sameName sumv fuel st')
      else Some (Inr st))"

text \<open>The locals at the start of the first macro-pass.\<close>

definition NLJ_start :: "JoinOperator \<Rightarrow> BufMgr \<times> Disk \<Rightarrow> NLJ" where
  "NLJ_start op w =
     \<lparr>jop = op\<lparr>numResultTuples := 0, numUsedBufPages := 0, numIOs := 0\<rparr>,
      bm = w, usedPage = [], already_in_buf = [], hashMap = Map.empty,
      read_page_num = 0, usedPageNum = 0\<rparr>"

text \<open>
  \<open>NestedLoopJoinOperator::execute\<close>. The result is \<open>None\<close> when the bound on the
  macro-passes is used up, an exception, or the returned boolean with the operator and
  the buffer manager and disk afterwards.
\<close>

definition NestedLoopJoin_execute ::
  "insertTuple \<Rightarrow> nat \<Rightarrow> 32 word \<Rightarrow> FileId \<Rightarrow> JoinOperator \<Rightarrow> BufMgr \<times> Disk
   \<Rightarrow> (error + bool \<times> JoinOperator \<times> BufMgr \<times> Disk) option" where
  "NestedLoopJoin_execute ins fuel numAvailableBufPages resultFile op w =
     (if isComplete op then Some (Inr (True, op, w))
      else
        (case macroLoop ins resultFile numAvailableBufPages
                (sameName_of (leftTableSchema op) (rightTableSchema op))
                (int (length (snd w (rightfile op)))) fuel (NLJ_start op w) of
           None \<Rightarrow> None
         | Some (Inl e) \<Rightarrow> Some (Inl e)
         | Some (Inr st) \<Rightarrow> Some (Inr (True, (jop st)\<lparr>isComplete := True\<rparr>, bm st))))"

section \<open>Example relations\<close>

text \<open>
  Modelled from the spec: \<open>HeapFileManager::insertTuple\<close> is not part of the sources; the
  specification says that a result tuple is inserted into the result file through the
  buffer pool's page-insertion path. This instance takes a new page of the result file
  from \<open>allocPage\<close>, stores the tuple as its only record and unpins the page as dirty.
\<close>

definition insertTuple_newPage :: insertTuple where
  "insertTuple_newPage tuple resultFile = (\<lambda>(b, d).
     case allocPage resultFile (b, d) of
       (Inl e, w) \<Rightarrow> Inl e
     | (Inr (newPageNo, frame), b1, d1) \<Rightarrow>
         (case unPinPage resultFile newPageNo True
                 (b1\<lparr>bufPool := (bufPool b1)(frame := (bufPool b1 frame)\<lparr>records := [tuple]\<rparr>)\<rparr>) of
            (Inl e, b2) \<Rightarrow> Inl e
          | (Inr u, b2) \<Rightarrow> Inr (b2, d1)))"

text \<open>The records of a file after its frames have been flushed to disk.\<close>

definition fileRecords :: "FileId \<Rightarrow> BufMgr \<times> Disk \<Rightarrow> error + string list" where
  "fileRecords f w =
     (case flushFile f w of
        (Inl e, w') \<Rightarrow> Inl e
      | (Inr u, b, d) \<Rightarrow> Inr (concat (map records (d f))))"

definition intAttr :: "string \<Rightarrow> Attribute" where
  "intAttr nm = \<lparr>attrName = nm, attrType = DT_INT, attrMaxSize = 4,
                 isAttrNotNull = True, isAttrUnique = False\<rparr>"

definition charAttr :: "string \<Rightarrow> nat \<Rightarrow> Attribute" where
  "charAttr nm n = \<lparr>attrName = nm, attrType = DT_CHAR, attrMaxSize = n,
                    isAttrNotNull = True, isAttrUnique = False\<rparr>"

text \<open>
  Left relation (file 1) with schema \<open>(k INT, x INT)\<close> and one tuple; right relation
  (file 2) with schema \<open>(k INT, y INT)\<close>; the result file is file 3.
\<close>

definition opKXY :: JoinOperator where
  "opKXY = JoinOperator_new 1 2 [intAttr ''k'', intAttr ''x''] [intAttr ''k'', intAttr ''y'']"

text \<open>The right relation on two pages with one tuple each; only the first matches.\<close>

definition diskTwoPages :: Disk where
  "diskTwoPages = (\<lambda>_. [])
     (1 := [\<lparr>page_number = 1, records = [''K001XXXX'']\<rparr>],
      2 := [\<lparr>page_number = 1, records = [''K001YYY1'']\<rparr>,
            \<lparr>page_number = 2, records = [''K002YYY2'']\<rparr>])"

text \<open>The right relation on one page with two tuples of the same key.\<close>

definition diskSameKey :: Disk where
  "diskSameKey = (\<lambda>_. [])
     (1 := [\<lparr>page_number = 1, records = [''K001XXXX'']\<rparr>],
      2 := [\<lparr>page_number = 1, records = [''K001YYY1'', ''K001YYY2'']\<rparr>])"

text \<open>A pool with a single frame, which holds a pinned page of another file (file 7).\<close>

definition poolPinned :: "BufMgr \<times> Disk" where
  "poolPinned = snd (readPage 7 1 (BufMgr_new 1,
      diskTwoPages(7 := [\<lparr>page_number = 1, records = []\<rparr>])))"

text \<open>
  What a caller observes of a call of \<open>execute\<close>: the returned boolean, the counter of
  result tuples and the records of the result file.
\<close>

definition joinOutcome ::
  "FileId \<Rightarrow> (error + bool \<times> JoinOperator \<times> BufMgr \<times> Disk) option
   \<Rightarrow> (error + bool \<times> int \<times> string list) option" where
  "joinOutcome resultFile r =
     (case r of
        None \<Rightarrow> None
      | Some (Inl e) \<Rightarrow> Some (Inl e)
      | Some (Inr (ok, op, w)) \<Rightarrow>
          (case fileRecords resultFile w of
             Inl e \<Rightarrow> Some (Inl e)
           | Inr recs \<Rightarrow> Some (Inr (ok, numResultTuples op, recs))))"

section \<open>Properties of the buffer manager\<close>

lemmas pool_eval =
  allocBuf_def allocBuf_loop.simps readPage_def unPinPage_def BufMgr_new_def
  advanceClock_def handDesc_def evictHand_def setDesc_def Set_desc_def Clear_def
  File_readPage_def diskA_def poolTwo_def poolHeld_def Let_def

lemma allocBuf_loop_selected:
  "allocBuf_loop pinned (b, d) = (Inr frame, s') \<Longrightarrow>
   frame < numBufs b \<and> (\<not> valid (bufDescTable b frame) \<or> pinCnt (bufDescTable b frame) = 0)"
proof (induction pinned "(b, d)" arbitrary: b d rule: allocBuf_loop.induct)
  case (1 pinned b d)
  let ?b1 = "advanceClock b"
  let ?h = "clockHand ?b1"
  from "1.prems" have n0: "numBufs b \<noteq> 0"
    by (subst (asm) allocBuf_loop.simps) (auto split: if_splits)
  from "1.prems" n0 have np: "pinned \<noteq> numBufs b"
    by (subst (asm) allocBuf_loop.simps) (auto split: if_splits)
  have hl: "?h < numBufs b" using n0 by (rule advanceClock_hand_less)
  show ?case
  proof (cases "valid (handDesc ?b1)")
    case False
    with "1.prems" n0 np have "frame = ?h"
      by (subst (asm) allocBuf_loop.simps) simp
    with False hl show ?thesis by (simp add: handDesc_def)
  next
    case v: True
    show ?thesis
    proof (cases "refbit (handDesc ?b1)")
      case True
      let ?b2 = "setDesc ?h ((handDesc ?b1)\<lparr>refbit := False\<rparr>) ?b1"
      from "1.prems" n0 np v True have "allocBuf_loop pinned (?b2, d) = (Inr frame, s')"
        by (subst (asm) allocBuf_loop.simps) simp
      from "1.hyps"(1) [OF n0 np _ True this] v
      have "frame < numBufs ?b2 \<and>
            (\<not> valid (bufDescTable ?b2 frame) \<or> pinCnt (bufDescTable ?b2 frame) = 0)"
        by simp
      then show ?thesis by (auto simp: handDesc_def split: if_splits)
    next
      case r: False
      show ?thesis
      proof (cases "pinCnt (handDesc ?b1) > 0")
        case True
        from "1.prems" n0 np v r True have "allocBuf_loop (pinned + 1) (?b1, d) = (Inr frame, s')"
          by (subst (asm) allocBuf_loop.simps) simp
        from "1.hyps"(2) [OF n0 np _ r True this] v
        show ?thesis by simp
      next
        case False
        from "1.prems" n0 np v r False have "evictHand (?b1, d) = (Inr frame, s')"
          by (subst (asm) allocBuf_loop.simps) simp
        then have "frame = ?h" by (simp add: evictHand_def Let_def)
        with False hl show ?thesis by (simp add: handDesc_def)
      qed
    qed
  qed
qed


text \<open>
  A call of \<open>allocBuf\<close> changes the pin count and the valid bit of no frame but the one
  it returns.
\<close>

lemma allocBuf_loop_keeps_pins:
  "allocBuf_loop pinned (b, d) = (res, b', d') \<Longrightarrow> res \<noteq> Inr i \<Longrightarrow>
   pinCnt (bufDescTable b' i) = pinCnt (bufDescTable b i)
   \<and> valid (bufDescTable b' i) = valid (bufDescTable b i)"
proof (induction pinned "(b, d)" arbitrary: b d rule: allocBuf_loop.induct)
  case (1 pinned b d)
  let ?b1 = "advanceClock b"
  let ?h = "clockHand ?b1"
  show ?case
  proof (cases "numBufs b = 0 \<or> pinned = numBufs b")
    case True
    with "1.prems" show ?thesis
      by (subst (asm) allocBuf_loop.simps) (auto split: if_splits)
  next
    case False
    then have n0: "numBufs b \<noteq> 0" and np: "pinned \<noteq> numBufs b" by simp_all
    show ?thesis
    proof (cases "valid (handDesc ?b1)")
      case False
      with "1.prems" n0 np show ?thesis
        by (subst (asm) allocBuf_loop.simps) auto
    next
      case v: True
      show ?thesis
      proof (cases "refbit (handDesc ?b1)")
        case True
        let ?b2 = "setDesc ?h ((handDesc ?b1)\<lparr>refbit := False\<rparr>) ?b1"
        from "1.prems" n0 np v True have "allocBuf_loop pinned (?b2, d) = (res, b', d')"
          by (subst (asm) allocBuf_loop.simps) simp
        from "1.hyps"(1) [OF n0 np _ True this "1.prems"(2)] v
        show ?thesis by (auto simp: handDesc_def split: if_splits)
      next
        case r: False
        show ?thesis
        proof (cases "pinCnt (handDesc ?b1) > 0")
          case True
          from "1.prems" n0 np v r True
          have "allocBuf_loop (pinned + 1) (?b1, d) = (res, b', d')"
            by (subst (asm) allocBuf_loop.simps) simp
          from "1.hyps"(2) [OF n0 np _ r True this "1.prems"(2)] v
          show ?thesis by simp
        next
          case False
          from "1.prems" n0 np v r False have "evictHand (?b1, d) = (res, b', d')"
            by (subst (asm) allocBuf_loop.simps) simp
          with "1.prems"(2) show ?thesis
            by (auto simp: evictHand_def Let_def split: option.splits)
        qed
      qed
    qed
  qed
qed

text \<open>
  Claim C2. Whenever \<open>allocBuf\<close> returns a frame, that frame is one of the pool's frames
  and, in the state in which \<open>allocBuf\<close> was called, its descriptor had a pin count of
  zero or was invalid. The scan changes no pin count and no valid bit before it selects,
  so these are the values at the moment of selection; a valid frame with a positive pin
  count is never the victim.
\<close>

theorem allocBuf_never_selects_pinned:
  "allocBuf (b, d) = (Inr frame, s') \<Longrightarrow>
   frame < numBufs b \<and> (pinCnt (bufDescTable b frame) = 0 \<or> \<not> valid (bufDescTable b frame))"
  using allocBuf_loop_selected [of 0 b d frame s'] by (auto simp: allocBuf_def)

theorem allocBuf_never_selects_pinned_witness:
  "allocBuf poolTwo = (Inr 1, snd (allocBuf poolTwo))
   \<and> pinCnt (bufDescTable (fst poolTwo) 0) = 1
   \<and> (1 :: 32 word) < numBufs (fst poolTwo)
   \<and> (pinCnt (bufDescTable (fst poolTwo) 1) = 0 \<or> \<not> valid (bufDescTable (fst poolTwo) 1))"
proof -
  have "fst (allocBuf poolTwo) = Inr 1" by (simp add: pool_eval)
  then have h: "allocBuf (fst poolTwo, snd poolTwo) = (Inr 1, snd (allocBuf poolTwo))"
    by (simp add: prod_eq_iff)
  have p: "pinCnt (bufDescTable (fst poolTwo) 0) = 1" by (simp add: pool_eval)
  from allocBuf_never_selects_pinned [OF h] h p show ?thesis by simp
qed

text \<open>
  Claim C7. \<open>unPinPage\<close> on a resident page with pin count 0 raises
  \<open>PageNotPinnedException\<close> (and changes nothing); on a resident page with a positive pin
  count it decrements the count and sets the dirty bit when \<open>isDirty\<close> holds, leaving
  the bit as it was otherwise, and changes nothing else; on a page that is not resident
  it returns without error and without any change of state.
\<close>

theorem unPinPage_cases:
  "(hashTable b (f, n) = Some frame \<and> pinCnt (bufDescTable b frame) = 0 \<longrightarrow>
      unPinPage f n isDirty b = (Inl PageNotPinnedException, b))
   \<and> (hashTable b (f, n) = Some frame \<and> pinCnt (bufDescTable b frame) > 0 \<longrightarrow>
      unPinPage f n isDirty b =
        (Inr (),
         b\<lparr>bufDescTable := (bufDescTable b)
              (frame := (bufDescTable b frame)
                 \<lparr>pinCnt := pinCnt (bufDescTable b frame) - 1,
                  dirty := (isDirty \<or> dirty (bufDescTable b frame))\<rparr>)\<rparr>))
   \<and> (hashTable b (f, n) = None \<longrightarrow> unPinPage f n isDirty b = (Inr (), b))"
  by (auto simp: unPinPage_def Let_def setDesc_def)

theorem unPinPage_cases_witness:
  "unPinPage 0 3 False (fst poolHeld) = (Inl PageNotPinnedException, fst poolHeld)
   \<and> fst (unPinPage 0 1 True (fst poolHeld)) = Inr ()
   \<and> pinCnt (bufDescTable (snd (unPinPage 0 1 True (fst poolHeld))) 0) = 0
   \<and> dirty (bufDescTable (snd (unPinPage 0 1 True (fst poolHeld))) 0)
   \<and> unPinPage 0 2 True (fst poolHeld) = (Inr (), fst poolHeld)"
proof -
  have a: "hashTable (fst poolHeld) (0, 3) = Some 1
           \<and> pinCnt (bufDescTable (fst poolHeld) 1) = 0"
    by (simp add: pool_eval)
  have b: "hashTable (fst poolHeld) (0, 1) = Some 0
           \<and> pinCnt (bufDescTable (fst poolHeld) 0) > 0"
    by (simp add: pool_eval)
  have b1: "pinCnt (bufDescTable (fst poolHeld) 0) = 1" by (simp add: pool_eval)
  have c: "hashTable (fst poolHeld) (0, 2) = None" by (simp add: pool_eval)
  from unPinPage_cases [of "fst poolHeld" 0 3 1 False] a
  have 1: "unPinPage 0 3 False (fst poolHeld) = (Inl PageNotPinnedException, fst poolHeld)"
    by blast
  from unPinPage_cases [of "fst poolHeld" 0 1 0 True] b
  have 2: "unPinPage 0 1 True (fst poolHeld) =
        (Inr (),
         (fst poolHeld)\<lparr>bufDescTable := (bufDescTable (fst poolHeld))
              (0 := (bufDescTable (fst poolHeld) 0)
                 \<lparr>pinCnt := pinCnt (bufDescTable (fst poolHeld) 0) - 1,
                  dirty := (True \<or> dirty (bufDescTable (fst poolHeld) 0))\<rparr>)\<rparr>)"
    by blast
  from unPinPage_cases [of "fst poolHeld" 0 2 _ True] c
  have 3: "unPinPage 0 2 True (fst poolHeld) = (Inr (), fst poolHeld)"
    by blast
  show ?thesis unfolding 1 2 3 using b1 by simp
qed

lemma visit_Suc: "visit (Suc j) b = visit j (passOver b)"
  by (simp add: visit_def funpow_swap1)

lemma unevictableEncounters_0 [simp]: "unevictableEncounters 0 b = 0"
  by (simp add: unevictableEncounters_def)

lemma selectionWithin_0 [simp]: "\<not> selectionWithin 0 b"
  by (simp add: selectionWithin_def)

lemma unevictableEncounters_Suc:
  "unevictableEncounters (Suc k) b =
     (if visit 0 b = Unevictable then 1 else 0) + unevictableEncounters k (passOver b)"
proof -
  have "[0 ..< Suc k] = 0 # map Suc [0 ..< k]"
    by (simp add: upt_conv_Cons map_Suc_upt del: upt_Suc)
  then show ?thesis
    by (simp add: unevictableEncounters_def filter_map comp_def visit_Suc del: upt_Suc)
qed

lemma selectionWithin_Suc:
  "selectionWithin (Suc k) b = (visit 0 b = Selected \<or> selectionWithin k (passOver b))"
proof -
  have "(\<exists>j < Suc k. visit j b = Selected)
        = (visit 0 b = Selected \<or> (\<exists>j < k. visit (Suc j) b = Selected))"
    by (metis less_Suc_eq_0_disj)
  then show ?thesis by (simp add: selectionWithin_def visit_Suc)
qed

lemma numBufs_passOver [simp]: "numBufs (passOver b) = numBufs b"
  by (simp add: passOver_def Let_def)

lemma visit_0: "visit 0 b = inspect (handDesc (advanceClock b))"
  by (simp add: visit_def)

lemma streak_shift:
  assumes "n < N"
  shows "(\<exists>k. n + unevictableEncounters k b = N \<and> \<not> selectionWithin k b)
         = (visit 0 b \<noteq> Selected \<and>
            (\<exists>k. n + (if visit 0 b = Unevictable then 1 else 0)
                     + unevictableEncounters k (passOver b) = N
                 \<and> \<not> selectionWithin k (passOver b)))"
    (is "?L = ?R")
proof
  assume ?L
  then obtain k where k: "n + unevictableEncounters k b = N" "\<not> selectionWithin k b" by blast
  with assms have "k \<noteq> 0" by (cases k) auto
  then obtain k' where "k = Suc k'" by (cases k) auto
  with k show ?R
    by (auto simp: unevictableEncounters_Suc selectionWithin_Suc split: if_splits)
next
  assume r: ?R
  then obtain k where
    k: "n + (if visit 0 b = Unevictable then 1 else 0)
          + unevictableEncounters k (passOver b) = N"
       "\<not> selectionWithin k (passOver b)" by blast
  from r k have "n + unevictableEncounters (Suc k) b = N \<and> \<not> selectionWithin (Suc k) b"
    by (simp add: unevictableEncounters_Suc selectionWithin_Suc)
  then show ?L by blast
qed

lemma unat_pinned_Suc:
  fixes p N :: "32 word"
  assumes "unat p \<le> unat N" "p \<noteq> N"
  shows "unat (p + 1) = unat p + 1" "unat p < unat N"
proof -
  from assms show lt: "unat p < unat N"
    by (metis le_neq_implies_less word_unat_eq_iff)
  have "unat N < 2 ^ 32" using unsigned_less [of N] by simp
  with lt have "unat p + 1 < 2 ^ 32" by simp
  then show "unat (p + 1) = unat p + 1"
    by (simp add: unat_add_lem [THEN iffD1])
qed

lemma allocBuf_loop_exceeded_iff:
  "numBufs b \<noteq> 0 \<Longrightarrow> unat pinned \<le> unat (numBufs b) \<Longrightarrow>
   (fst (allocBuf_loop pinned (b, d)) = Inl BufferExceededException)
   = (\<exists>k. unat pinned + unevictableEncounters k b = unat (numBufs b) \<and> \<not> selectionWithin k b)"
proof (induction pinned "(b, d)" arbitrary: b d rule: allocBuf_loop.induct)
  case (1 pinned b d)
  let ?b1 = "advanceClock b"
  let ?h = "clockHand ?b1"
  note n0 = \<open>numBufs b \<noteq> 0\<close>
  show ?case
  proof (cases "pinned = numBufs b")
    case True
    then have "fst (allocBuf_loop pinned (b, d)) = Inl BufferExceededException"
      using n0 by (subst allocBuf_loop.simps) simp
    moreover have "unat pinned + unevictableEncounters 0 b = unat (numBufs b)
                   \<and> \<not> selectionWithin 0 b"
      using True by simp
    ultimately show ?thesis by blast
  next
    case np: False
    from unat_pinned_Suc [OF "1.prems"(2) np]
    have suc: "unat (pinned + 1) = unat pinned + 1" and lt: "unat pinned < unat (numBufs b)"
      by simp_all
    note shift = streak_shift [OF lt, of b]
    show ?thesis
    proof (cases "valid (handDesc ?b1)")
      case False
      then have "visit 0 b = Selected" by (simp add: visit_0 inspect_def)
      moreover from False n0 np have "fst (allocBuf_loop pinned (b, d)) = Inr ?h"
        by (subst allocBuf_loop.simps) simp
      ultimately show ?thesis unfolding shift by simp
    next
      case v: True
      show ?thesis
      proof (cases "refbit (handDesc ?b1)")
        case True
        let ?b2 = "setDesc ?h ((handDesc ?b1)\<lparr>refbit := False\<rparr>) ?b1"
        from v True have vis: "visit 0 b = RefCleared" by (simp add: visit_0 inspect_def)
        then have po: "passOver b = ?b2" by (simp add: passOver_def Let_def visit_0)
        from n0 np v True
        have "allocBuf_loop pinned (b, d) = allocBuf_loop pinned (?b2, d)"
          by (subst allocBuf_loop.simps) simp
        moreover from "1.hyps"(1) [OF n0 np _ True] v n0 "1.prems"(2)
        have "(fst (allocBuf_loop pinned (?b2, d)) = Inl BufferExceededException)
              = (\<exists>k. unat pinned + unevictableEncounters k ?b2 = unat (numBufs b)
                     \<and> \<not> selectionWithin k ?b2)"
          by simp
        ultimately show ?thesis unfolding shift using vis po by simp
      next
        case r: False
        show ?thesis
        proof (cases "pinCnt (handDesc ?b1) > 0")
          case True
          from v r True have vis: "visit 0 b = Unevictable" by (simp add: visit_0 inspect_def)
          then have po: "passOver b = ?b1" by (simp add: passOver_def Let_def visit_0)
          from n0 np v r True
          have "allocBuf_loop pinned (b, d) = allocBuf_loop (pinned + 1) (?b1, d)"
            by (subst allocBuf_loop.simps) simp
          moreover from "1.hyps"(2) [OF n0 np _ r True] v n0 lt suc
          have "(fst (allocBuf_loop (pinned + 1) (?b1, d)) = Inl BufferExceededException)
                = (\<exists>k. unat pinned + 1 + unevictableEncounters k ?b1 = unat (numBufs b)
                       \<and> \<not> selectionWithin k ?b1)"
            by simp
          ultimately show ?thesis unfolding shift using vis po by simp
        next
          case False
          with v r have "visit 0 b = Selected" by (simp add: visit_0 inspect_def)
          moreover from False v r n0 np have "fst (allocBuf_loop pinned (b, d)) = Inr ?h"
            by (subst allocBuf_loop.simps) (simp add: evictHand_def Let_def)
          ultimately show ?thesis unfolding shift by simp
        qed
      qed
    qed
  qed
qed


lemma allocBuf_loop_total:
  "numBufs b \<noteq> 0 \<Longrightarrow>
   fst (allocBuf_loop pinned (b, d)) = Inl BufferExceededException
   \<or> (\<exists>frame. fst (allocBuf_loop pinned (b, d)) = Inr frame)"
proof (induction pinned "(b, d)" arbitrary: b d rule: allocBuf_loop.induct)
  case (1 pinned b d)
  note n0 = \<open>numBufs b \<noteq> 0\<close>
  show ?case
    using "1.hyps"(1) "1.hyps"(2) n0
    by (subst (1 2) allocBuf_loop.simps) (simp add: evictHand_def Let_def)
qed

text \<open>When every frame is valid and pinned, the scan ends with \<open>BufferExceededException\<close>.\<close>

lemma allocBuf_all_pinned:
  assumes "numBufs b \<noteq> 0"
    and "\<forall>i < numBufs b. valid (bufDescTable b i) \<and> pinCnt (bufDescTable b i) > 0"
  shows "fst (allocBuf (b, d)) = Inl BufferExceededException"
proof (rule ccontr)
  assume "fst (allocBuf (b, d)) \<noteq> Inl BufferExceededException"
  with allocBuf_loop_total [OF assms(1), of 0 d]
  obtain frame where "fst (allocBuf (b, d)) = Inr frame" by (auto simp: allocBuf_def)
  then have "allocBuf_loop 0 (b, d) = (Inr frame, snd (allocBuf_loop 0 (b, d)))"
    by (simp add: allocBuf_def prod_eq_iff)
  from allocBuf_loop_selected [OF this] assms(2) show False by auto
qed

lemma readPage_propagates:
  "hashTable b (f, n) = None \<Longrightarrow> fst (allocBuf (b, d)) = Inl e \<Longrightarrow>
   fst (readPage f n (b, d)) = Inl e"
  by (cases "allocBuf (b, d)") (auto simp: readPage_def)

lemma allocPage_propagates:
  "fst (allocBuf (b, snd (File_allocatePage f d))) = Inl e \<Longrightarrow>
   fst (allocPage f (b, d)) = Inl e"
  by (cases "File_allocatePage f d"; cases "allocBuf (b, snd (File_allocatePage f d))")
     (auto simp: allocPage_def)

lemma exhaustion_scenario:
  assumes "fst (readPage f 1 (BufMgr_new 1, d)) = Inr fr"
  shows "fst (readPage f 2 (snd (readPage f 1 (BufMgr_new 1, d))))
         = Inl BufferExceededException"
proof -
  from assms obtain p where p: "File_readPage f 1 d = Inr p"
    by (auto simp: readPage_def allocBuf_def allocBuf_loop.simps BufMgr_new_def
          advanceClock_def handDesc_def split: sum.splits)
  show ?thesis
    using p
    by (simp add: readPage_def allocBuf_def allocBuf_loop.simps BufMgr_new_def
          advanceClock_def handDesc_def setDesc_def Set_desc_def Clear_def)
qed

text \<open>
  The loop of \<open>allocBuf\<close> and the scan as the specification words it agree: for a pool
  with at least one frame, \<open>allocBuf\<close> raises \<open>BufferExceededException\<close> exactly when
  the visits of its scan accumulate as many unevictable encounters, repeated visits of
  one frame included, as the pool has frames, with no selection before that. With
  capacity 1, once page 1 of a file is held pinned, fetching page 2 raises. The
  exception leaves \<open>readPage\<close> (on an index miss) and \<open>allocPage\<close> as it is.
\<close>

lemma allocBuf_exceeded_iff_streak:
  "(numBufs b \<noteq> 0 \<longrightarrow>
      (fst (allocBuf (b, d)) = Inl BufferExceededException)
      = (\<exists>k. unevictableEncounters k b = unat (numBufs b) \<and> \<not> selectionWithin k b))
   \<and> (fst (readPage f 1 (BufMgr_new 1, d)) = Inr fr \<longrightarrow>
        fst (readPage f 2 (snd (readPage f 1 (BufMgr_new 1, d))))
        = Inl BufferExceededException)
   \<and> (hashTable b (f, n) = None \<and> fst (allocBuf (b, d)) = Inl BufferExceededException \<longrightarrow>
        fst (readPage f n (b, d)) = Inl BufferExceededException)
   \<and> (fst (allocBuf (b, snd (File_allocatePage f d))) = Inl BufferExceededException \<longrightarrow>
        fst (allocPage f (b, d)) = Inl BufferExceededException)"
  using allocBuf_loop_exceeded_iff [of b 0 d] exhaustion_scenario [of f d fr]
        readPage_propagates [of b f n d] allocPage_propagates [of b f d]
  by (simp add: allocBuf_def)

text \<open>
  Claim C3 (evaluation of the code). \<open>poolHeld\<close> is reached from a fresh pool of two
  frames by \<open>readPage(A,1)\<close> (held), \<open>readPage(A,2)\<close>, \<open>unPinPage(A,2)\<close>,
  \<open>readPage(A,3)\<close>, \<open>unPinPage(A,3)\<close>. Frame 1 is valid and unpinned there, so not all
  frames are pinned, yet \<open>allocBuf\<close> raises \<open>BufferExceededException\<close>, and so does
  \<open>readPage(A,4)\<close>: the scan meets the pinned frame 0, clears the reference bit of
  frame 1, meets frame 0 again and has then counted two pinned encounters in a pool of
  two frames. After the failed call frame 1 is valid, unpinned and unreferenced, and a
  second call of \<open>allocBuf\<close> returns it.
\<close>

theorem allocBuf_raises_with_evictable_frame:
  "fst (allocBuf poolHeld) = Inl BufferExceededException
   \<and> fst (readPage 0 4 poolHeld) = Inl BufferExceededException
   \<and> numBufs (fst poolHeld) = 2
   \<and> valid (bufDescTable (fst poolHeld) 1) \<and> pinCnt (bufDescTable (fst poolHeld) 1) = 0
   \<and> valid (bufDescTable (fst (snd (allocBuf poolHeld))) 1)
   \<and> pinCnt (bufDescTable (fst (snd (allocBuf poolHeld))) 1) = 0
   \<and> \<not> refbit (bufDescTable (fst (snd (allocBuf poolHeld))) 1)
   \<and> fst (allocBuf (snd (allocBuf poolHeld))) = Inr 1"
  by (simp add: pool_eval)

section \<open>Properties of the join operators\<close>

lemma str_read_numeral:
  "str_read s i (numeral k) =
     (case str_at s i of
        Inl e \<Rightarrow> Inl e
      | Inr c \<Rightarrow> (case str_read s (Suc i) (pred_numeral k) of
                    Inl e \<Rightarrow> Inl e
                  | Inr cs \<Rightarrow> Inr (c # cs)))"
  by (simp add: numeral_eq_Suc)

lemma macroLoop_numeral:
  "macroLoop ins resultFile numAvailableBufPages sameName sumv (numeral k) st =
     (if usedPageNum st < sumv then
        (case macroPass ins resultFile numAvailableBufPages sameName st of
           Inl e \<Rightarrow> Some (Inl e)
         | Inr st' \<Rightarrow>
             macroLoop ins resultFile numAvailableBufPages sameName sumv (pred_numeral k) st')
      else Some (Inr st))"
  by (simp add: numeral_eq_Suc)

lemmas codec_eval =
  handle_tuple_def handle_attr_def str_read_numeral str_at_def str_erase_def erase_pos_def
  digit_of_def INT_MAX_def uint_add_def

lemmas join_eval =
  macroLoop_numeral NestedLoopJoin_execute_def NLJ_start_def macroPass_def sameName_of_def
  JoinOperator_new_def createResultTableSchema_def intAttr_def charAttr_def opKXY_def
  insertTuple_newPage_def allocPage_def File_allocatePage_def File_writePage_def
  flushFile_def fileRecords_def joinOutcome_def diskTwoPages_def diskSameKey_def
  poolPinned_def upt_rec

text \<open>
  When the left attribute names are distinct and attributes of the same name have the
  same type in both schemas, the join columns of \<open>execute\<close> are the names of the common
  attributes.
\<close>

lemma inner_common:
  "distinct (map attrName ls) \<Longrightarrow>
   \<forall>l \<in> set ls. attrName l = attrName r \<longrightarrow> attrType l = attrType r \<Longrightarrow>
   concat (map (\<lambda>l. if attrType l = attrType r \<and> attrName l = attrName r then [r] else []) ls)
   = (if count_list (map attrName ls) (attrName r) \<noteq> 0 then [r] else [])"
proof (induction ls)
  case Nil
  then show ?case by simp
next
  case (Cons l ls)
  show ?case
  proof (cases "attrName l = attrName r")
    case True
    with Cons.prems have "attrName r \<notin> set (map attrName ls)" by auto
    then have "count_list (map attrName ls) (attrName r) = 0" by (simp add: count_list_0_iff)
    with Cons True show ?thesis by simp
  next
    case False
    with Cons show ?thesis by simp
  qed
qed

lemma sameName_of_common:
  assumes "distinct (map attrName ls)"
    and "\<forall>l \<in> set ls. \<forall>r \<in> set rs. attrName l = attrName r \<longrightarrow> attrType l = attrType r"
  shows "sameName_of ls rs = map attrName (getCommonAttributes ls rs)"
  using assms(2)
proof (induction rs)
  case Nil
  then show ?case by (simp add: sameName_of_def getCommonAttributes_def)
next
  case (Cons r rs)
  have "\<forall>l \<in> set ls. attrName l = attrName r \<longrightarrow> attrType l = attrType r"
    using Cons.prems by simp
  from inner_common [OF assms(1) this] Cons show ?case
    by (simp add: sameName_of_def getCommonAttributes_def)
qed

text \<open>
  Claim C4 (evaluation of the code). For the left schema \<open>(a INT)\<close> and the right schema
  \<open>(a CHAR(4), b INT)\<close> the join columns that \<open>execute\<close> computes are \<open>[a]\<close>, although
  \<open>getCommonAttributes\<close> is empty: \<open>execute\<close> compares names only. The result schema,
  built with the comparison of name and type, keeps the right column \<open>a\<close>, while the
  remainder that \<open>handle_tuple\<close> returns for a right tuple has lost it.
\<close>

theorem execute_join_columns_by_name_only:
  "sameName_of [intAttr ''a''] [charAttr ''a'' 4, intAttr ''b''] = [''a'']
   \<and> getCommonAttributes [intAttr ''a''] [charAttr ''a'' 4, intAttr ''b''] = []
   \<and> createResultTableSchema [intAttr ''a''] [charAttr ''a'' 4, intAttr ''b'']
       = [intAttr ''a'', charAttr ''a'' 4, intAttr ''b'']
   \<and> handle_tuple [] (sameName_of [intAttr ''a''] [charAttr ''a'' 4, intAttr ''b''])
         ''abcdBBBB'' [] [charAttr ''a'' 4, intAttr ''b''] = Inr (''abcd'', ''BBBB'')"
  by (simp add: sameName_of_def getCommonAttributes_def createResultTableSchema_def
        intAttr_def charAttr_def codec_eval)

text \<open>
  Claim C8. When a call of \<open>execute\<close> of the nested-loop join has returned, it returned
  true and the operator is complete; every later call, whatever its arguments and
  whatever the buffer manager and disk, returns true and leaves the operator, the
  buffer manager and the disk exactly as they were, so it fetches no page. The same holds
  for the one-pass and the Grace hash join operators.
\<close>

theorem execute_idempotent:
  "(NestedLoopJoin_execute ins fuel n rf op w = Some (Inr (r, op', w')) \<longrightarrow>
      r \<and> isComplete op'
      \<and> NestedLoopJoin_execute ins2 fuel2 n2 rf2 op' w2 = Some (Inr (True, op', w2)))
   \<and> (OnePassJoin_execute n rf op = (r1, op1) \<longrightarrow>
      r1 \<and> isComplete op1 \<and> OnePassJoin_execute n2 rf2 op1 = (True, op1))
   \<and> (GraceHashJoin_execute n rf op = (r3, op3) \<longrightarrow>
      r3 \<and> isComplete op3 \<and> GraceHashJoin_execute n2 rf2 op3 = (True, op3))"
  by (auto simp: NestedLoopJoin_execute_def OnePassJoin_execute_def GraceHashJoin_execute_def
        split: if_splits option.splits sum.splits)

theorem execute_idempotent_witness:
  "\<exists>op' w'.
     NestedLoopJoin_execute insertTuple_newPage 1 3 3 opKXY (BufMgr_new 5, diskTwoPages)
       = Some (Inr (True, op', w'))
     \<and> numIOs op' = 3
     \<and> NestedLoopJoin_execute insertTuple_newPage 0 1 3 op' w' = Some (Inr (True, op', w'))
     \<and> OnePassJoin_execute 1 3 (snd (OnePassJoin_execute 3 3 opKXY))
         = (True, snd (OnePassJoin_execute 3 3 opKXY))
     \<and> GraceHashJoin_execute 1 3 (snd (GraceHashJoin_execute 3 3 opKXY))
         = (True, snd (GraceHashJoin_execute 3 3 opKXY))"
proof -
  have "\<exists>op' w'.
     NestedLoopJoin_execute insertTuple_newPage 1 3 3 opKXY (BufMgr_new 5, diskTwoPages)
       = Some (Inr (True, op', w')) \<and> numIOs op' = 3"
    by (simp add: join_eval codec_eval pool_eval)
  then obtain op' w' where
    h: "NestedLoopJoin_execute insertTuple_newPage 1 3 3 opKXY (BufMgr_new 5, diskTwoPages)
          = Some (Inr (True, op', w'))"
    and io: "numIOs op' = 3" by blast
  have h1: "OnePassJoin_execute 3 3 opKXY = (True, snd (OnePassJoin_execute 3 3 opKXY))"
    by (simp add: OnePassJoin_execute_def)
  have h3: "GraceHashJoin_execute 3 3 opKXY = (True, snd (GraceHashJoin_execute 3 3 opKXY))"
    by (simp add: GraceHashJoin_execute_def)
  from execute_idempotent
         [where ins = insertTuple_newPage and fuel = 1 and n = 3 and rf = 3 and op = opKXY
            and w = "(BufMgr_new 5, diskTwoPages)" and r = True and op' = op' and w' = w'
            and ?ins2.0 = insertTuple_newPage and ?fuel2.0 = 0 and ?n2.0 = 1 and ?rf2.0 = 3
            and ?w2.0 = w' and ?r1.0 = True and ?op1.0 = "snd (OnePassJoin_execute 3 3 opKXY)"
            and ?r3.0 = True and ?op3.0 = "snd (GraceHashJoin_execute 3 3 opKXY)"]
       h io h1 h3
  show ?thesis by auto
qed

text \<open>
  Claim C9 (as stated, refuted). On an operator that is not complete, both
  \<open>OnePassJoinOperator::execute\<close> and \<open>GraceHashJoinOperator::execute\<close> return true:
  they report success, and they produce no output.
\<close>

theorem unimplemented_joins_report_success:
  "fst (OnePassJoin_execute 3 3 opKXY) = True \<and> \<not> isComplete opKXY
   \<and> fst (GraceHashJoin_execute 3 3 opKXY) = True"
  by (simp add: OnePassJoin_execute_def GraceHashJoin_execute_def opKXY_def
        JoinOperator_new_def)

text \<open>
  Claim C9 (amended). Every call of \<open>OnePassJoinOperator::execute\<close> and of
  \<open>GraceHashJoinOperator::execute\<close> returns true and leaves the operator complete; it
  changes nothing of the operator but the three counters, which a first call sets to
  zero, and the completion flag.
\<close>

theorem unimplemented_joins_always_succeed:
  "fst (OnePassJoin_execute n rf op) = True
   \<and> isComplete (snd (OnePassJoin_execute n rf op))
   \<and> snd (OnePassJoin_execute n rf op)
       = (if isComplete op then op
          else op\<lparr>numResultTuples := 0, numUsedBufPages := 0, numIOs := 0,
                  isComplete := True\<rparr>)
   \<and> fst (GraceHashJoin_execute n rf op) = True
   \<and> isComplete (snd (GraceHashJoin_execute n rf op))
   \<and> snd (GraceHashJoin_execute n rf op)
       = (if isComplete op then op
          else op\<lparr>numResultTuples := 0, numUsedBufPages := 0, numIOs := 0,
                  isComplete := True\<rparr>)"
  by (simp add: OnePassJoin_execute_def GraceHashJoin_execute_def)

lemma sint_budget:
  fixes n :: "32 word"
  assumes "- 2147483648 < sint n"
  shows "sint (n - 1) = sint n - 1"
proof -
  have u: "sint n < 2147483648" using sint_lt [of n] by simp
  have "sint (n - 1) = signed_take_bit 31 (sint n - 1)"
    by (simp add: sint_word_ariths)
  also have "\<dots> = sint n - 1"
    using assms u by (simp add: signed_take_bit_int_eq_self)
  finally show ?thesis .
qed

lemma build_pages_no_budget:
  "- 2147483648 < sint numAvailableBufPages \<Longrightarrow> sint numAvailableBufPages \<le> 1 \<Longrightarrow>
   read_page_num st \<ge> 0 \<Longrightarrow>
   build_pages numAvailableBufPages sameName pgs st = Inr st"
  by (cases pgs) (simp_all add: sint_budget)

lemma probe_pages_locals:
  "probe_pages ins resultFile sameName pgs st = Inr st' \<Longrightarrow>
   usedPageNum st' = usedPageNum st \<and> read_page_num st' = read_page_num st
   \<and> usedPage st' = usedPage st \<and> already_in_buf st' = already_in_buf st
   \<and> hashMap st' = hashMap st"
proof (induction pgs arbitrary: st)
  case Nil
  then show ?case by simp
next
  case (Cons pg pgs)
  from Cons.prems obtain st1 where
    s1: "probe_pages ins resultFile sameName pgs st1 = Inr st'"
    and l1: "usedPageNum st1 = usedPageNum st" "read_page_num st1 = read_page_num st"
      "usedPage st1 = usedPage st" "already_in_buf st1 = already_in_buf st"
      "hashMap st1 = hashMap st"
    by (auto split: prod.splits sum.splits)
  from Cons.IH [OF s1] l1 show ?case by simp
qed

lemma macroPass_no_budget:
  assumes "- 2147483648 < sint numAvailableBufPages \<and> sint numAvailableBufPages \<le> 1"
    and "read_page_num st = 0"
    and "macroPass ins resultFile numAvailableBufPages sameName st = Inr st'"
  shows "usedPageNum st' = usedPageNum st \<and> read_page_num st' = 0
         \<and> usedPage st' = usedPage st"
proof -
  have b: "build_pages numAvailableBufPages sameName
             (snd (bm st) (rightfile (jop st))) st = Inr st"
    using assms(1,2) by (simp add: build_pages_no_budget)
  from assms(3) obtain st3 where
    p: "probe_pages ins resultFile sameName
          (snd (bm st) (leftfile (jop st))) (st\<lparr>usedPageNum := usedPageNum st + 0\<rparr>)
        = Inr st3"
    and r: "usedPageNum st' = usedPageNum st3" "read_page_num st' = 0"
           "usedPage st' = usedPage st3"
    unfolding macroPass_def b using assms(2)
    by (auto simp: Let_def split: sum.splits prod.splits)
  from probe_pages_locals [OF p] r show ?thesis by simp
qed

lemma macroLoop_no_budget:
  "- 2147483648 < sint numAvailableBufPages \<and> sint numAvailableBufPages \<le> 1 \<Longrightarrow>
   read_page_num st = 0 \<Longrightarrow> usedPageNum st < sumv \<Longrightarrow>
   macroLoop ins resultFile numAvailableBufPages sameName sumv fuel st \<noteq> Some (Inr r)"
proof (induction fuel arbitrary: st)
  case 0
  then show ?case by simp
next
  case (Suc fuel)
  show ?case
  proof (cases "macroPass ins resultFile numAvailableBufPages sameName st")
    case (Inl e)
    with Suc.prems show ?thesis by simp
  next
    case (Inr st')
    from macroPass_no_budget [OF Suc.prems(1,2) Inr] Suc.prems(3)
    have "read_page_num st' = 0" "usedPageNum st' < sumv" by simp_all
    from Suc.IH [OF Suc.prems(1) this] Inr Suc.prems(3) show ?thesis by simp
  qed
qed

lemma flushFile_frames_absent:
  "\<forall>i \<in> set frames. filePtr (bufDescTable b i) \<noteq> Some f \<Longrightarrow>
   flushFile_frames f frames (b, d) = (Inr (), b, d)"
  by (induction frames) simp_all

lemma macroPass_idle:
  assumes "- 2147483648 < sint numAvailableBufPages \<and> sint numAvailableBufPages \<le> 1"
    and "read_page_num st = 0" "already_in_buf st = []"
    and "snd (bm st) (leftfile (jop st)) = []"
    and "\<forall>i. filePtr (bufDescTable (fst (bm st)) i) \<noteq> Some (rightfile (jop st))"
  shows "macroPass ins resultFile numAvailableBufPages sameName st = Inr st"
proof -
  have b: "build_pages numAvailableBufPages sameName
             (snd (bm st) (rightfile (jop st))) st = Inr st"
    using assms(1,2) by (simp add: build_pages_no_budget)
  have f: "flushFile (rightfile (jop st)) (fst (bm st), snd (bm st))
           = (Inr (), fst (bm st), snd (bm st))"
    unfolding flushFile_def prod.case
    by (rule flushFile_frames_absent) (use assms(5) in simp)
  show ?thesis
    unfolding macroPass_def b using assms(2,3,4) f by (simp add: Let_def)
qed

lemma macroLoop_idle:
  assumes "- 2147483648 < sint numAvailableBufPages \<and> sint numAvailableBufPages \<le> 1"
    and "read_page_num st = 0" "already_in_buf st = []"
    and "snd (bm st) (leftfile (jop st)) = []"
    and "\<forall>i. filePtr (bufDescTable (fst (bm st)) i) \<noteq> Some (rightfile (jop st))"
    and "usedPageNum st < sumv"
  shows "macroLoop ins resultFile numAvailableBufPages sameName sumv fuel st = None"
  using assms(6) by (induction fuel) (simp_all add: macroPass_idle [OF assms(1-5)])

text \<open>
  Claim C10 (as stated, refuted). First, with one available buffer page, a right
  relation of two pages and a pool whose only frame is pinned by another file, the first
  call of \<open>execute\<close> ends: the fetch of the first left page raises
  \<open>BufferExceededException\<close>, which leaves \<open>execute\<close>. Second, with \<open>INT_MIN\<close>
  available buffer pages, \<open>numAvailableBufPages - 1\<close> wraps around to \<open>INT_MAX\<close>, the
  build step fetches both right pages, and \<open>execute\<close> returns true after one
  macro-pass.
\<close>

theorem execute_no_budget_ends:
  "NestedLoopJoin_execute insertTuple_newPage 1 1 3 opKXY poolPinned
   = Some (Inl BufferExceededException)
   \<and> sint (- 2147483648 :: 32 word) \<le> 1
   \<and> joinOutcome 3 (NestedLoopJoin_execute insertTuple_newPage 1 (- 2147483648) 3 opKXY
                      (BufMgr_new 5, diskTwoPages))
     = Some (Inr (True, 1, [''K001XXXXYYY1'']))"
  by (simp add: join_eval codec_eval pool_eval)

text \<open>
  An exception that ends such a run need not come from the buffer manager: with the
  left schema \<open>(a INT, b INT)\<close> and the right schema \<open>(b INT, a INT)\<close> the join
  columns are \<open>[b, a]\<close>, and \<open>handle_tuple\<close> raises \<open>std::out_of_range\<close> on the first
  left tuple.
\<close>

lemma execute_no_budget_out_of_range:
  "NestedLoopJoin_execute insertTuple_newPage 1 1 3
     (JoinOperator_new 1 2 [intAttr ''a'', intAttr ''b''] [intAttr ''b'', intAttr ''a''])
     (BufMgr_new 5, diskTwoPages)
   = Some (Inl OutOfRangeException)"
  by (simp add: join_eval codec_eval pool_eval)

text \<open>
  Claim C10 (amended). For a first call of \<open>execute\<close> with more than \<open>INT_MIN\<close> and
  at most one available buffer page and a right relation of at least one page: the build
  step returns at once without fetching a page; a macro-pass leaves the count and the
  list of the consumed right pages as they were; \<open>execute\<close> never returns: whatever
  the bound on the number of macro-passes, the run is still in the loop or has been
  ended by an exception; and when the left relation has no page and the pool holds no
  frame of the right file, no exception occurs and the loop runs for ever.
\<close>

theorem NestedLoopJoin_no_budget:
  assumes "- 2147483648 < sint numAvailableBufPages" and "sint numAvailableBufPages \<le> 1"
    and "\<not> isComplete op"
    and "snd w (rightfile op) \<noteq> []"
  shows "(\<forall>pgs. build_pages numAvailableBufPages sameName pgs (NLJ_start op w)
                 = Inr (NLJ_start op w))
       \<and> (\<forall>st st'. read_page_num st = 0 \<longrightarrow>
             macroPass ins resultFile numAvailableBufPages sameName st = Inr st' \<longrightarrow>
             usedPageNum st' = usedPageNum st \<and> usedPage st' = usedPage st
             \<and> read_page_num st' = 0)
       \<and> (\<forall>fuel.
             NestedLoopJoin_execute ins fuel numAvailableBufPages resultFile op w = None
             \<or> (\<exists>e. NestedLoopJoin_execute ins fuel numAvailableBufPages resultFile op w
                       = Some (Inl e)))
       \<and> (snd w (leftfile op) = []
            \<and> (\<forall>i. filePtr (bufDescTable (fst w) i) \<noteq> Some (rightfile op)) \<longrightarrow>
          (\<forall>fuel. NestedLoopJoin_execute ins fuel numAvailableBufPages resultFile op w = None))"
proof -
  have nb: "- 2147483648 < sint numAvailableBufPages \<and> sint numAvailableBufPages \<le> 1"
    using assms(1,2) by simp
  have s: "usedPageNum (NLJ_start op w) < int (length (snd w (rightfile op)))"
    using assms(4) by (simp add: NLJ_start_def)
  have r0: "read_page_num (NLJ_start op w) = 0" by (simp add: NLJ_start_def)
  have 1: "build_pages numAvailableBufPages sameName pgs (NLJ_start op w)
           = Inr (NLJ_start op w)" for pgs
    using assms(1,2) by (simp add: build_pages_no_budget NLJ_start_def)
  have 2: "usedPageNum st' = usedPageNum st \<and> usedPage st' = usedPage st
           \<and> read_page_num st' = 0"
    if "read_page_num st = 0"
      "macroPass ins resultFile numAvailableBufPages sameName st = Inr st'" for st st'
    using macroPass_no_budget [OF nb that] by simp
  have 3: "NestedLoopJoin_execute ins fuel numAvailableBufPages resultFile op w = None
           \<or> (\<exists>e. NestedLoopJoin_execute ins fuel numAvailableBufPages resultFile op w
                     = Some (Inl e))" for fuel
    using macroLoop_no_budget [OF nb r0 s] assms(3)
    by (auto simp: NestedLoopJoin_execute_def split: option.splits sum.splits)
  have 4: "NestedLoopJoin_execute ins fuel numAvailableBufPages resultFile op w = None"
    if a: "snd w (leftfile op) = []
           \<and> (\<forall>i. filePtr (bufDescTable (fst w) i) \<noteq> Some (rightfile op))" for fuel
  proof -
    have "macroLoop ins resultFile numAvailableBufPages
            (sameName_of (leftTableSchema op) (rightTableSchema op))
            (int (length (snd w (rightfile op)))) fuel (NLJ_start op w) = None"
    proof (rule macroLoop_idle [OF nb r0 _ _ _ s])
      show "already_in_buf (NLJ_start op w) = []" by (simp add: NLJ_start_def)
      show "snd (bm (NLJ_start op w)) (leftfile (jop (NLJ_start op w))) = []"
        using a by (simp add: NLJ_start_def)
      show "\<forall>i. filePtr (bufDescTable (fst (bm (NLJ_start op w))) i)
                \<noteq> Some (rightfile (jop (NLJ_start op w)))"
        using a by (simp add: NLJ_start_def)
    qed
    then show ?thesis using assms(3) by (simp add: NestedLoopJoin_execute_def)
  qed
  from 1 2 3 4 show ?thesis by blast
qed

theorem NestedLoopJoin_no_budget_witness:
  "(\<forall>fuel. NestedLoopJoin_execute insertTuple_newPage fuel 1 3 opKXY
                (BufMgr_new 5, diskTwoPages) = None
            \<or> (\<exists>e. NestedLoopJoin_execute insertTuple_newPage fuel 1 3 opKXY
                (BufMgr_new 5, diskTwoPages) = Some (Inl e)))
   \<and> (\<forall>fuel. NestedLoopJoin_execute insertTuple_newPage fuel 1 3 opKXY
                (BufMgr_new 5, diskTwoPages(1 := [])) = None)"
proof -
  have a: "- 2147483648 < sint (1 :: 32 word)" by simp
  have a': "sint (1 :: 32 word) \<le> 1" by simp
  have b: "\<not> isComplete opKXY" by (simp add: opKXY_def JoinOperator_new_def)
  have c: "snd (BufMgr_new 5, diskTwoPages) (rightfile opKXY) \<noteq> []"
    by (simp add: opKXY_def JoinOperator_new_def diskTwoPages_def)
  have c': "snd (BufMgr_new 5, diskTwoPages(1 := [])) (rightfile opKXY) \<noteq> []"
    by (simp add: opKXY_def JoinOperator_new_def diskTwoPages_def)
  have d: "snd (BufMgr_new 5, diskTwoPages(1 := [])) (leftfile opKXY) = []
           \<and> (\<forall>i. filePtr (bufDescTable (fst (BufMgr_new 5, diskTwoPages(1 := []))) i)
                  \<noteq> Some (rightfile opKXY))"
    by (simp add: opKXY_def JoinOperator_new_def BufMgr_new_def)
  from NestedLoopJoin_no_budget [OF a a' b c, of "[]" insertTuple_newPage 3]
  have 1: "\<forall>fuel. NestedLoopJoin_execute insertTuple_newPage fuel 1 3 opKXY
                (BufMgr_new 5, diskTwoPages) = None
            \<or> (\<exists>e. NestedLoopJoin_execute insertTuple_newPage fuel 1 3 opKXY
                (BufMgr_new 5, diskTwoPages) = Some (Inl e))"
    by blast
  from NestedLoopJoin_no_budget [OF a a' b c', of "[]" insertTuple_newPage 3] d
  have 2: "\<forall>fuel. NestedLoopJoin_execute insertTuple_newPage fuel 1 3 opKXY
                (BufMgr_new 5, diskTwoPages(1 := [])) = None"
    by blast
  from 1 2 show ?thesis by blast
qed

text \<open>
  Claim C1 (evaluation of the code). The left relation holds the single tuple
  \<open>K001XXXX\<close>; the right relation holds \<open>K001YYY1\<close> on its first page and \<open>K002YYY2\<close>
  on its second; only the first right tuple has the key of the left tuple. With two
  available buffer pages \<open>execute\<close> makes two macro-passes and inserts the result tuple
  \<open>K001XXXXYYY1\<close> twice, because the key map still holds the first page in the second
  pass.
\<close>

theorem execute_duplicates_across_passes:
  "joinOutcome 3 (NestedLoopJoin_execute insertTuple_newPage 2 2 3 opKXY
                    (BufMgr_new 5, diskTwoPages))
   = Some (Inr (True, 2, [''K001XXXXYYY1'', ''K001XXXXYYY1'']))"
  by (simp add: join_eval codec_eval pool_eval)

text \<open>
  With three available buffer pages the same relations are joined in one macro-pass,
  and the result tuple is inserted once.
\<close>

lemma execute_single_pass:
  "joinOutcome 3 (NestedLoopJoin_execute insertTuple_newPage 1 3 3 opKXY
                    (BufMgr_new 5, diskTwoPages))
   = Some (Inr (True, 1, [''K001XXXXYYY1'']))"
  by (simp add: join_eval codec_eval pool_eval)

text \<open>
  Two right tuples with the key of the left tuple, on one page, joined in one
  macro-pass: the second result tuple is the first result tuple followed by the second
  remainder, because \<open>lefttuple.insert\<close> has extended the left tuple itself.
\<close>

lemma execute_same_key_appends:
  "joinOutcome 3 (NestedLoopJoin_execute insertTuple_newPage 1 2 3 opKXY
                    (BufMgr_new 5, diskSameKey))
   = Some (Inr (True, 2, [''K001XXXXYYY1'', ''K001XXXXYYY1YYY2'']))"
  by (simp add: join_eval codec_eval pool_eval)

text \<open>
  Claim C5 (evaluation of the code). After the first macro-pass over the relations of
  \<open>diskTwoPages\<close> with two available buffer pages, one of the two right pages has been
  consumed, so a second macro-pass follows; \<open>already_in_buf\<close> is empty,
  \<open>read_page_num\<close> is 0 and no frame of the pool belongs to the right file any more,
  but the key map still holds the remainder \<open>YYY1\<close> under the key \<open>K001\<close>.
\<close>

theorem macroPass_keeps_key_map:
  "map_sum id
     (\<lambda>st. (hashMap st ''K001'', usedPageNum st, already_in_buf st, read_page_num st,
            list_all (\<lambda>i. filePtr (bufDescTable (fst (bm st)) i) \<noteq> Some 2) [0, 1, 2, 3, 4]))
     (macroPass insertTuple_newPage 3 2 [''k'']
        (NLJ_start opKXY (BufMgr_new 5, diskTwoPages)))
   = Inr (Some [''YYY1''], 1, [], 0, True)"
  by (simp add: join_eval codec_eval pool_eval)

section \<open>Properties of the tuple walk\<close>

lemma attributeSpan_fixed: "fixedAligned a \<Longrightarrow> attributeSpan a bytes = width a"
  by (auto simp: fixedAligned_def attributeSpan_def width_def pad4_def)

lemma width_mod4: "fixedAligned a \<Longrightarrow> width a mod 4 = 0"
  by (auto simp: fixedAligned_def width_def)

lemma encodedLength_mod4: "list_all fixedAligned as \<Longrightarrow> encodedLength as mod 4 = 0"
  by (induction as) (auto simp: encodedLength_def width_mod4 mod_add_eq [symmetric])

lemma encodedLength_append [simp]:
  "encodedLength (xs @ ys) = encodedLength xs + encodedLength ys"
  by (simp add: encodedLength_def)

lemma encodedLength_Cons [simp]: "encodedLength (a # as) = width a + encodedLength as"
  by (simp add: encodedLength_def)

lemma encodedLength_Nil [simp]: "encodedLength [] = 0"
  by (simp add: encodedLength_def)

lemma str_read_in_range:
  "i + n \<le> length s \<Longrightarrow> length s \<le> INT_MAX \<Longrightarrow>
   str_read s i n = Inr (take n (drop i s))"
proof (induction n arbitrary: i)
  case 0
  then show ?case by simp
next
  case (Suc n)
  then have i: "i < length s" and r: "Suc i + n \<le> length s" by simp_all
  from i Suc.prems(2) have im: "\<not> i > INT_MAX" by simp
  from i have "drop i s = s ! i # drop (Suc i) s" by (simp add: Cons_nth_drop_Suc)
  with Suc.IH [OF r Suc.prems(2)] i im show ?case by (simp add: str_at_def)
qed

lemma erase_pos_diff:
  "ad \<le> idx \<Longrightarrow> idx < 2 ^ 32 \<Longrightarrow> erase_pos idx ad = idx - ad"
proof -
  assume a: "ad \<le> idx" "idx < 2 ^ 32"
  then have "0 \<le> int idx - int ad" "int idx - int ad < 2 ^ 32" by simp_all
  then have "(int idx - int ad) mod 2 ^ 32 = int idx - int ad" by simp
  with a show ?thesis by (simp add: erase_pos_def)
qed

lemma walk_attrs_prefix:
  assumes "list_all fixedAligned pre" "fixedAligned a"
    and "idx + encodedLength pre + width a \<le> INT_MAX"
  shows "walk_attrs (pre @ [a]) tup (hs, l, ad, idx) =
     (case str_read tup (idx + encodedLength pre) (width a) of
        Inl e \<Rightarrow> Inl e
      | Inr bytes \<Rightarrow>
          (case str_erase l (erase_pos (idx + encodedLength pre) ad) (width a) of
             Inl e \<Rightarrow> Inl e
           | Inr l' \<Rightarrow>
               Inr (hs @ bytes, l', uint_add ad (width a),
                    idx + encodedLength pre + width a)))"
  using assms
proof (induction pre arbitrary: idx)
  case Nil
  then show ?case
    by (auto simp: fixedAligned_def width_def split: sum.splits)
next
  case (Cons p ps)
  from Cons.prems have p: "fixedAligned p" and ps: "list_all fixedAligned ps" by simp_all
  from Cons.prems(3) have b1: "\<not> idx + width p > INT_MAX"
    and b2: "idx + width p + encodedLength ps + width a \<le> INT_MAX" by simp_all
  have step: "walk_attrs ((p # ps) @ [a]) tup (hs, l, ad, idx)
        = walk_attrs (ps @ [a]) tup (hs, l, ad, idx + width p)"
    using p b1 by (auto simp: fixedAligned_def width_def)
  have eq: "idx + width p + encodedLength ps = idx + encodedLength (p # ps)" by simp
  show ?case
    unfolding step Cons.IH [OF ps Cons.prems(2) b2] eq ..
qed

lemma getAttrNum_found:
  "attrName a \<notin> attrName ` set pre \<Longrightarrow>
   getAttrNum (pre @ a # post) (attrName a) = Some (length pre)"
  by (induction pre) auto


lemma handle_attr_step:
  assumes sch: "schema = done @ a # todo"
    and al: "list_all fixedAligned schema"
    and di: "distinct (map attrName schema)"
    and len: "length tup = encodedLength schema"
    and small: "length tup \<le> INT_MAX"
    and lp: "length lp \<le> encodedLength done"
  shows "handle_attr schema tup (attrName a)
           (hs, lp @ drop (encodedLength done) tup, encodedLength done - length lp)
         = Inr (hs @ take (width a) (drop (encodedLength done) tup),
                lp @ drop (encodedLength (done @ [a])) tup,
                encodedLength (done @ [a]) - length lp)"
proof -
  let ?o = "encodedLength done"
  from di sch have "attrName a \<notin> attrName ` set done" by auto
  then have g: "getAttrNum schema (attrName a) = Some (length done)"
    unfolding sch by (rule getAttrNum_found)
  have t: "take (Suc (length done)) schema = done @ [a]" by (simp add: sch)
  from al sch have ald: "list_all fixedAligned done" and ala: "fixedAligned a" by simp_all
  have rng: "?o + width a \<le> length tup" by (simp add: len sch)
  have bd: "0 + ?o + width a \<le> INT_MAX" using rng small by simp
  have rd: "str_read tup (0 + ?o) (width a) = Inr (take (width a) (drop ?o tup))"
    using rng small by (simp add: str_read_in_range)
  have ep: "erase_pos (0 + ?o) (?o - length lp) = length lp"
    using lp rng small by (simp add: erase_pos_diff INT_MAX_def)
  have ua: "uint_add (?o - length lp) (width a) = ?o - length lp + width a"
    using lp rng small by (simp add: uint_add_def INT_MAX_def)
  have er: "str_erase (lp @ drop ?o tup) (length lp) (width a)
            = Inr (lp @ drop (?o + width a) tup)"
    by (simp add: str_erase_def add.commute)
  have m: "(0 + ?o + width a) mod 4 = 0"
    using encodedLength_mod4 [OF ald] width_mod4 [OF ala] by (simp add: mod_add_eq [symmetric])
  have w: "walk_attrs (done @ [a]) tup
             (hs, lp @ drop ?o tup, ?o - length lp, 0)
           = Inr (hs @ take (width a) (drop ?o tup), lp @ drop (?o + width a) tup,
                  ?o - length lp + width a, 0 + ?o + width a)"
    unfolding walk_attrs_prefix [OF ald ala bd] rd ep er ua by simp
  show ?thesis
    unfolding handle_attr_def prod.case g option.case t w sum.case using m lp by simp
qed

lemma handle_attrs_from:
  assumes al: "list_all fixedAligned schema"
    and di: "distinct (map attrName schema)"
    and len: "length tup = encodedLength schema"
    and small: "length tup \<le> INT_MAX"
  shows "schema = done @ todo \<Longrightarrow> length lp \<le> encodedLength done \<Longrightarrow>
    \<exists>ad. handle_attrs schema tup (filter (\<lambda>x. x \<in> set ns) (map attrName todo))
           (hs, lp @ drop (encodedLength done) tup, encodedLength done - length lp)
         = Inr (hs @ fst (extractJoinKeyAndRemainder (drop (encodedLength done) tup) ns todo),
                lp @ snd (extractJoinKeyAndRemainder (drop (encodedLength done) tup) ns todo),
                ad)"
proof (induction todo arbitrary: "done" hs lp)
  case Nil
  then show ?case by simp
next
  case (Cons a todo)
  let ?o = "encodedLength done"
  let ?X = "drop ?o tup"
  from al Cons.prems(1) have ala: "fixedAligned a" by simp
  have sp: "attributeSpan a ?X = width a" using ala by (rule attributeSpan_fixed)
  have sch': "schema = (done @ [a]) @ todo" using Cons.prems(1) by simp
  have rng: "?o + width a \<le> length tup" using Cons.prems(1) by (simp add: len)
  have dd: "drop (width a) ?X = drop (encodedLength (done @ [a])) tup"
    by (simp add: add.commute)
  show ?case
  proof (cases "attrName a \<in> set ns")
    case True
    have lp': "length lp \<le> encodedLength (done @ [a])" using Cons.prems(2) by simp
    from Cons.IH [OF sch' lp', of "hs @ take (width a) ?X"]
    obtain ad where
      ih: "handle_attrs schema tup (filter (\<lambda>x. x \<in> set ns) (map attrName todo))
             (hs @ take (width a) ?X, lp @ drop (encodedLength (done @ [a])) tup,
              encodedLength (done @ [a]) - length lp)
           = Inr ((hs @ take (width a) ?X)
                    @ fst (extractJoinKeyAndRemainder
                             (drop (encodedLength (done @ [a])) tup) ns todo),
                  lp @ snd (extractJoinKeyAndRemainder
                              (drop (encodedLength (done @ [a])) tup) ns todo),
                  ad)"
      by blast
    note st = handle_attr_step [OF Cons.prems(1) al di len small Cons.prems(2), of hs]
    show ?thesis
      using True ih
      by (simp add: st sp Let_def split_beta ac_simps)
  next
    case False
    let ?lp = "lp @ take (width a) ?X"
    have l1: "length (take (width a) ?X) = width a" using rng by simp
    have lp': "length ?lp \<le> encodedLength (done @ [a])" using Cons.prems(2) l1 by simp
    have "take (width a) ?X @ drop (width a) ?X = ?X" by (rule append_take_drop_id)
    then have e1: "?lp @ drop (encodedLength (done @ [a])) tup = lp @ ?X"
      unfolding dd by simp
    have e2: "encodedLength (done @ [a]) - length ?lp = ?o - length lp"
      using l1 by simp
    from Cons.IH [OF sch' lp', of hs]
    obtain ad where
      ih: "handle_attrs schema tup (filter (\<lambda>x. x \<in> set ns) (map attrName todo))
             (hs, lp @ ?X, ?o - length lp)
           = Inr (hs @ fst (extractJoinKeyAndRemainder
                             (drop (encodedLength (done @ [a])) tup) ns todo),
                  ?lp @ snd (extractJoinKeyAndRemainder
                              (drop (encodedLength (done @ [a])) tup) ns todo),
                  ad)"
      unfolding e1 e2 by blast
    show ?thesis
      using False ih
      by (simp add: sp Let_def split_beta ac_simps)
  qed
qed

lemma subseq_distinct_filter:
  "subseq ns xs \<Longrightarrow> distinct xs \<Longrightarrow> filter (\<lambda>x. x \<in> set ns) xs = ns"
proof (induction rule: list_emb.induct)
  case (list_emb_Nil ys)
  then show ?case by simp
next
  case (list_emb_Cons xs ys y)
  from list_emb_Cons.hyps have "set xs \<subseteq> set ys"
    by (auto dest: list_emb_set)
  with list_emb_Cons.prems have "y \<notin> set xs" by auto
  with list_emb_Cons show ?case by simp
next
  case (list_emb_Cons2 x y xs ys)
  then have "x \<notin> set ys" by simp
  then have "filter (\<lambda>z. z \<in> set (x # xs)) ys = filter (\<lambda>z. z \<in> set xs) ys"
    by (intro filter_cong) auto
  with list_emb_Cons2 show ?case by simp
qed

text \<open>
  Where the slips do not bite, \<open>handle_tuple\<close> is the extraction of the specification:
  every attribute is INT or CHAR(n) with \<open>n\<close> a multiple of 4, the attribute names are
  distinct, the tuple has the encoded length of the schema, at most \<open>INT_MAX\<close>, and the
  common names are listed in schema order.
\<close>

lemma handle_tuple_in_schema_order:
  assumes "list_all fixedAligned schema"
    and "distinct (map attrName schema)"
    and "subseq commonAttrNames (map attrName schema)"
    and "length tuple = encodedLength schema"
    and "length tuple \<le> INT_MAX"
  shows "handle_tuple [] commonAttrNames tuple [] schema
         = Inr (extractJoinKeyAndRemainder tuple commonAttrNames schema)"
proof -
  have f: "filter (\<lambda>x. x \<in> set commonAttrNames) (map attrName schema) = commonAttrNames"
    using assms(3,2) by (rule subseq_distinct_filter)
  from handle_attrs_from [OF assms(1,2,4,5), of "[]" schema "[]" commonAttrNames "[]"]
  obtain ad where
    "handle_attrs schema tuple commonAttrNames ([], tuple, 0)
     = Inr (fst (extractJoinKeyAndRemainder tuple commonAttrNames schema),
            snd (extractJoinKeyAndRemainder tuple commonAttrNames schema), ad)"
    unfolding f by auto
  then show ?thesis by (simp add: handle_tuple_def)
qed

text \<open>
  Claim C6 (evaluation of the code). The specification's extraction and
  \<open>handle_tuple\<close> differ on well-formed tuples. For the schema \<open>(c CHAR(5), a INT)\<close>
  the walk does not skip the padding of \<open>c\<close>: it reads the key of \<open>a\<close> three bytes
  early and deletes the wrong bytes. For the schema \<open>(v VARCHAR(8), a INT)\<close> the walk
  takes the length byte 3 for a digit character, reads length 0 and misplaces \<open>a\<close> as
  well. For the schema \<open>(a INT, b INT, c INT)\<close> and the list \<open>[c, b]\<close> the remainder
  has lost the span of \<open>a\<close> and kept the span of \<open>b\<close>, and for the schema
  \<open>(a INT, b INT)\<close> and the list \<open>[b, a]\<close> the deletion offset wraps around and
  \<open>erase\<close> raises \<open>std::out_of_range\<close>.
\<close>

theorem handle_tuple_differs_from_extract:
  "handle_tuple [] [''a''] (''CCCCC'' @ [CHR 0x00, CHR 0x00, CHR 0x00] @ ''AAAA'') []
       [charAttr ''c'' 5, intAttr ''a'']
       = Inr ([CHR 0x00, CHR 0x00, CHR 0x00, CHR ''A''], ''CCCCC'')
   \<and> extractJoinKeyAndRemainder (''CCCCC'' @ [CHR 0x00, CHR 0x00, CHR 0x00] @ ''AAAA'') [''a'']
       [charAttr ''c'' 5, intAttr ''a'']
       = (''AAAA'', ''CCCCC'' @ [CHR 0x00, CHR 0x00, CHR 0x00])
   \<and> handle_tuple [] [''a''] ([CHR 0x03] @ ''abc'' @ ''AAAA'') []
       [\<lparr>attrName = ''v'', attrType = DT_VARCHAR, attrMaxSize = 8,
         isAttrNotNull = True, isAttrUnique = False\<rparr>, intAttr ''a'']
       = Inr (''abcA'', [CHR 0x03])
   \<and> extractJoinKeyAndRemainder ([CHR 0x03] @ ''abc'' @ ''AAAA'') [''a'']
       [\<lparr>attrName = ''v'', attrType = DT_VARCHAR, attrMaxSize = 8,
         isAttrNotNull = True, isAttrUnique = False\<rparr>, intAttr ''a'']
       = (''AAAA'', [CHR 0x03] @ ''abc'')
   \<and> handle_tuple [] [''c'', ''b''] ''AAAABBBBCCCC'' []
       [intAttr ''a'', intAttr ''b'', intAttr ''c''] = Inr (''CCCCBBBB'', ''BBBB'')
   \<and> extractJoinKeyAndRemainder ''AAAABBBBCCCC'' [''c'', ''b'']
       [intAttr ''a'', intAttr ''b'', intAttr ''c''] = (''BBBBCCCC'', ''AAAA'')
   \<and> handle_tuple [] [''b'', ''a''] ''AAAABBBB'' [] [intAttr ''a'', intAttr ''b'']
       = Inl OutOfRangeException"
  by (simp add: codec_eval intAttr_def charAttr_def attributeSpan_def pad4_def)

end
